theory Spec2Isabelle
  imports Complex_Main "HOL-Library.Word"
begin

section \<open>Strings of the host language\<close>

text \<open>
  A string of the source language is a sequence of 16-bit code units.  String literals of
  the source are written \<open>js ''...''\<close>: each ASCII character becomes its code unit.
\<close>

type_synonym jsstring = "16 word list"

definition js :: "string \<Rightarrow> jsstring" where
  "js s = map (\<lambda>c. of_char c) s"

text \<open>
  \<open>String.prototype.trim\<close> strips white space and line terminators from both ends.
  The stripped code units are TAB, LF, VT, FF, CR, SPACE, NBSP, U+1680, U+2000..U+200A,
  U+2028, U+2029, U+202F, U+205F, U+3000 and U+FEFF.
\<close>

definition isWhiteSpace :: "16 word \<Rightarrow> bool" where
  "isWhiteSpace c \<longleftrightarrow>
     c = 0x0009 \<or> c = 0x000A \<or> c = 0x000B \<or> c = 0x000C \<or> c = 0x000D \<or>
     c = 0x0020 \<or> c = 0x00A0 \<or> c = 0x1680 \<or> (0x2000 \<le> c \<and> c \<le> 0x200A) \<or>
     c = 0x2028 \<or> c = 0x2029 \<or> c = 0x202F \<or> c = 0x205F \<or> c = 0x3000 \<or>
     c = 0xFEFF"

definition trim :: "jsstring \<Rightarrow> jsstring" where
  "trim s = rev (dropWhile isWhiteSpace (rev (dropWhile isWhiteSpace s)))"

section \<open>Data model of \<open>App.tsx\<close>\<close>

text \<open>The interface \<open>QRHistoryItem\<close>; the field \<open>id\<close> is written \<open>id'\<close>.\<close>

record QRHistoryItem =
  id' :: jsstring
  url :: jsstring
  fgColor :: jsstring
  bgColor :: jsstring
  timestamp :: int

text \<open>
  The component state, one field per \<open>useState\<close> cell of \<open>App\<close>; the cell
  \<open>size\<close> is written \<open>size'\<close>.  Fields that share a name with a field of
  \<open>QRHistoryItem\<close> are told apart by the record name (\<open>App.url\<close>,
  \<open>QRHistoryItem.url\<close>).
\<close>

record App =
  url :: jsstring
  fgColor :: jsstring
  bgColor :: jsstring
  size' :: int
  history :: "QRHistoryItem list"
  copied :: bool

text \<open>
  What one run of \<open>addToHistory\<close> reads from outside the component: the string
  \<open>Math.random().toString(36).substr(2, 9)\<close> and the number \<open>Date.now()\<close>.
\<close>

record add_env =
  Math_random_id :: jsstring
  Date_now :: int

section \<open>The history store\<close>

text \<open>
  \<open>addToHistory\<close> (lines 60 to 75).  The handler runs in the render whose state is
  \<open>st\<close>, so the closure variable \<open>history\<close> and the argument \<open>prev\<close> of the
  updater are the same list.  \<open>slice(0, 10)\<close> is \<open>take 10\<close>.
\<close>

definition addToHistory :: "add_env \<Rightarrow> App \<Rightarrow> App" where
  "addToHistory e st =
     (if App.url st = [] \<or> trim (App.url st) = [] then st
      else
        let newItem = \<lparr> id' = Math_random_id e,
                        url = trim (App.url st),
                        fgColor = App.fgColor st,
                        bgColor = App.bgColor st,
                        timestamp = Date_now e \<rparr>
        in if length (history st) = 0
              \<or> QRHistoryItem.url (history st ! 0) \<noteq> QRHistoryItem.url newItem
           then st\<lparr> history := take 10 (newItem # history st) \<rparr>
           else st)"

text \<open>\<open>clearHistory\<close> (line 132) and \<open>loadFromHistory\<close> (line 136).\<close>

definition clearHistory :: "App \<Rightarrow> App" where
  "clearHistory st = st\<lparr> history := [] \<rparr>"

definition loadFromHistory :: "QRHistoryItem \<Rightarrow> App \<Rightarrow> App" where
  "loadFromHistory item st =
     st\<lparr> url := QRHistoryItem.url item,
         fgColor := QRHistoryItem.fgColor item,
         bgColor := QRHistoryItem.bgColor item \<rparr>"

text \<open>
  One call of the add operation as the spec words it, \<open>add(address, foreground,
  background)\<close>: the three inputs are set to the given values and \<open>addToHistory\<close> runs
  with the identifier and clock reading of that call.
\<close>

record add_call =
  address :: jsstring
  foreground :: jsstring
  background :: jsstring
  env :: add_env

definition add :: "add_call \<Rightarrow> App \<Rightarrow> App" where
  "add c st =
     addToHistory (env c)
       (st\<lparr> url := address c, fgColor := foreground c, bgColor := background c \<rparr>)"

text \<open>The entry that a call creates.\<close>

definition entry_of :: "add_call \<Rightarrow> QRHistoryItem" where
  "entry_of c =
     \<lparr> id' = Math_random_id (env c),
       url = trim (address c),
       fgColor = foreground c,
       bgColor = background c,
       timestamp = Date_now (env c) \<rparr>"

text \<open>A sequence of calls, the first of the list first.\<close>

fun adds :: "add_call list \<Rightarrow> App \<Rightarrow> App" where
  "adds [] st = st"
| "adds (c # cs) st = adds cs (add c st)"

text \<open>The state of a freshly mounted component (lines 35 to 40).\<close>

definition initial :: App where
  "initial =
     \<lparr> url = js ''https://google.com'',
       fgColor = js ''#000000'',
       bgColor = js ''#ffffff'',
       size' = 256,
       history = [],
       copied = False \<rparr>"

section \<open>Numbers of the host language\<close>

text \<open>
  A Number is an IEEE 754 double.  The finite ones are rationals, and an arithmetic
  operation returns the exact result rounded to the nearest double, ties to the even
  significand.  \<open>fl\<close> is that rounding: \<open>binade x\<close> is the exponent \<open>e\<close> with
  \<open>2^e \<le> |x| < 2^(e+1)\<close>, a double of that binade is a multiple of \<open>2^(e-52)\<close>, and
  below \<open>2^(-1022)\<close> the spacing stays \<open>2^(-1074)\<close>.  Results beyond the largest
  finite double would be \<open>Infinity\<close>; the export composer stays below \<open>2^11\<close>, so
  \<open>fl\<close> leaves that case out (\<open>Number_value\<close> below adds it for the numbers of a
  JSON text).
\<close>

fun ilog2 :: "nat \<Rightarrow> nat" where
  "ilog2 n = (if n < 2 then 0 else Suc (ilog2 (n div 2)))"

declare ilog2.simps [simp del]

definition binade :: "rat \<Rightarrow> int" where
  "binade x =
     (if 1 \<le> \<bar>x\<bar> then int (ilog2 (nat \<lfloor>\<bar>x\<bar>\<rfloor>))
      else - int (Suc (ilog2 (nat (\<lceil>1 / \<bar>x\<bar>\<rceil> - 1)))))"

definition round_half_even :: "rat \<Rightarrow> int" where
  "round_half_even q =
     (let f = \<lfloor>q\<rfloor>; r = q - of_int f
      in if r < 1 / 2 then f else if 1 / 2 < r then f + 1 else if even f then f else f + 1)"

definition fl :: "rat \<Rightarrow> rat" where
  "fl x =
     (if x = 0 then 0
      else let u = 2 powi (max (binade x) (- 1022) - 52)
           in of_int (round_half_even (x / u)) * u)"

text \<open>The operators \<open>*\<close>, \<open>+\<close>, \<open>-\<close> on Numbers, and the literal \<open>0.1\<close>.\<close>

definition Number_multiply :: "rat \<Rightarrow> rat \<Rightarrow> rat" where
  "Number_multiply a b = fl (a * b)"

definition Number_add :: "rat \<Rightarrow> rat \<Rightarrow> rat" where
  "Number_add a b = fl (a + b)"

definition Number_subtract :: "rat \<Rightarrow> rat \<Rightarrow> rat" where
  "Number_subtract a b = fl (a - b)"

definition literal_0_1 :: rat where
  "literal_0_1 = fl (1 / 10)"

section \<open>The export composer\<close>

text \<open>
  \<open>downloadQR\<close>, lines 81 to 108: the geometry of the exported image.  \<open>size\<close> holds
  the integer that \<open>parseInt\<close> read from the range input.
\<close>

definition padding :: "int \<Rightarrow> rat" where
  "padding sz = max 20 (Number_multiply (of_int sz) literal_0_1)"

definition totalSize :: "int \<Rightarrow> rat" where
  "totalSize sz = Number_add (of_int sz) (Number_multiply (padding sz) 2)"

definition radius :: "int \<Rightarrow> rat" where
  "radius sz = Number_multiply (totalSize sz) literal_0_1"

text \<open>The calls made on the 2D context, in order, with their arguments.\<close>

datatype canvas_op =
    FillStyle jsstring
  | BeginPath
  | MoveTo rat rat
  | LineTo rat rat
  | QuadraticCurveTo rat rat rat rat
  | ClosePath
  | Fill
  | DrawImage rat rat rat rat

text \<open>
  The canvas \<open>mainCanvas\<close>: the Numbers assigned to its \<open>width\<close> and \<open>height\<close>,
  and the drawing calls.  (What the browser then does with a fractional \<open>width\<close> is
  not part of \<open>App.tsx\<close>.)  \<open>DrawImage dx dy dw dh\<close> draws the symbol canvas
  \<open>qrCanvas\<close>.
\<close>

record canvas =
  width :: rat
  height :: rat
  ops :: "canvas_op list"

definition mainCanvas :: "int \<Rightarrow> jsstring \<Rightarrow> canvas" where
  "mainCanvas sz bg =
     (let p = padding sz; t = totalSize sz; r = radius sz
      in \<lparr> width = t,
           height = t,
           ops = [FillStyle bg,
                  BeginPath,
                  MoveTo r 0,
                  LineTo (Number_subtract t r) 0,
                  QuadraticCurveTo t 0 t r,
                  LineTo t (Number_subtract t r),
                  QuadraticCurveTo t t (Number_subtract t r) t,
                  LineTo r t,
                  QuadraticCurveTo 0 t 0 (Number_subtract t r),
                  LineTo 0 r,
                  QuadraticCurveTo 0 0 r 0,
                  ClosePath,
                  Fill,
                  DrawImage p p (of_int sz) (of_int sz)] \<rparr>)"

section \<open>JSON\<close>

text \<open>
  \<open>JSON.parse\<close> and \<open>JSON.stringify\<close> are functions of the host language.  The
  parser below follows the JSON grammar of ECMA-404: white space is TAB, LF, CR and SPACE;
  a value is \<open>null\<close>, \<open>true\<close>, \<open>false\<close>, a number, a string, an array or an
  object.  A number is the double nearest to the value of its text (\<open>JNumber\<close>, a
  rational that is a double; minus zero is not told apart from zero), or an infinity when
  that lies beyond the largest double.  An object keeps its members in the order of the
  text.  \<open>JSON.parse\<close> throws \<open>SyntaxError\<close> on any other text.
\<close>

datatype json =
    JNull
  | JBool bool
  | JNumber rat
  | JInfinity
  | JNegInfinity
  | JString jsstring
  | JArray "json list"
  | JObject "(jsstring \<times> json) list"

datatype js_error = SyntaxError

text \<open>White space between tokens.\<close>

definition is_json_ws :: "16 word \<Rightarrow> bool" where
  "is_json_ws c \<longleftrightarrow> c = 0x09 \<or> c = 0x0A \<or> c = 0x0D \<or> c = 0x20"

definition skip_ws :: "jsstring \<Rightarrow> jsstring" where
  "skip_ws = dropWhile is_json_ws"

text \<open>
  Strings.  \<open>parse_chars\<close> reads the characters after the opening quote (0x22) up to
  the closing one: a backslash (0x5C) starts an escape, either \<open>u\<close> (0x75) with four
  hexadecimal digits of either case or one of the single-character escapes; a code unit
  below 0x20 is refused; any other code unit stands for itself.  The result is the string
  and the rest of the input.
\<close>

definition hex_value :: "16 word \<Rightarrow> nat option" where
  "hex_value c =
     (if 0x30 \<le> c \<and> c \<le> 0x39 then Some (unat c - 0x30)
      else if 0x61 \<le> c \<and> c \<le> 0x66 then Some (unat c - 0x61 + 10)
      else if 0x41 \<le> c \<and> c \<le> 0x46 then Some (unat c - 0x41 + 10)
      else None)"

definition hex4 :: "16 word \<Rightarrow> 16 word \<Rightarrow> 16 word \<Rightarrow> 16 word \<Rightarrow> 16 word option" where
  "hex4 a b c d =
     (case (hex_value a, hex_value b, hex_value c, hex_value d) of
        (Some p, Some q, Some r, Some s) \<Rightarrow> Some (of_nat (p * 4096 + q * 256 + r * 16 + s))
      | _ \<Rightarrow> None)"

definition unescape :: "16 word \<Rightarrow> 16 word option" where
  "unescape e =
     (if e = 0x22 then Some 0x22
      else if e = 0x2F then Some 0x2F
      else if e = 0x5C then Some 0x5C
      else if e = 0x62 then Some 0x08
      else if e = 0x66 then Some 0x0C
      else if e = 0x6E then Some 0x0A
      else if e = 0x72 then Some 0x0D
      else if e = 0x74 then Some 0x09
      else None)"

definition cons_fst :: "'a \<Rightarrow> ('a list \<times> 'b) option \<Rightarrow> ('a list \<times> 'b) option" where
  "cons_fst x r = map_option (\<lambda>(xs, rest). (x # xs, rest)) r"

fun parse_chars :: "jsstring \<Rightarrow> (jsstring \<times> jsstring) option" where
  "parse_chars [] = None"
| "parse_chars (c # cs) =
     (if c = 0x22 then Some ([], cs)
      else if c = 0x5C then
        (case cs of
           [] \<Rightarrow> None
         | e # es \<Rightarrow>
             if e = 0x75 then
               (case es of
                  h1 # h2 # h3 # h4 # rest \<Rightarrow>
                    (case hex4 h1 h2 h3 h4 of
                       None \<Rightarrow> None
                     | Some u \<Rightarrow> cons_fst u (parse_chars rest))
                | _ \<Rightarrow> None)
             else
               (case unescape e of
                  None \<Rightarrow> None
                | Some u \<Rightarrow> cons_fst u (parse_chars es)))
      else if c < 0x20 then None
      else cons_fst c (parse_chars cs))"

text \<open>
  Numbers: an optional minus sign, an integer part without a superfluous leading zero, an
  optional fraction (a point, 0x2E, and at least one digit) and an optional exponent
  (\<open>e\<close> or \<open>E\<close>, an optional sign and at least one digit).  \<open>parse_number\<close>
  returns the exact value of the text.
\<close>

definition is_digit :: "16 word \<Rightarrow> bool" where
  "is_digit c \<longleftrightarrow> 0x30 \<le> c \<and> c \<le> 0x39"

definition digits_value :: "jsstring \<Rightarrow> nat" where
  "digits_value ds = foldl (\<lambda>a c. 10 * a + (unat c - 0x30)) 0 ds"

definition parse_fraction :: "jsstring \<Rightarrow> (rat \<times> jsstring) option" where
  "parse_fraction s =
     (case s of
        [] \<Rightarrow> Some (0, s)
      | c # cs \<Rightarrow>
          if c = 0x2E then
            (let fs = takeWhile is_digit cs
             in if fs = [] then None
                else Some (of_nat (digits_value fs) / 10 ^ length fs, dropWhile is_digit cs))
          else Some (0, s))"

definition parse_exponent :: "jsstring \<Rightarrow> (int \<times> jsstring) option" where
  "parse_exponent s =
     (case s of
        [] \<Rightarrow> Some (0, s)
      | c # cs \<Rightarrow>
          if c = 0x65 \<or> c = 0x45 then
            (let neg = (case cs of [] \<Rightarrow> False | g # _ \<Rightarrow> g = 0x2D);
                 signed = (case cs of [] \<Rightarrow> False | g # _ \<Rightarrow> g = 0x2D \<or> g = 0x2B);
                 ds = (if signed then tl cs else cs);
                 es = takeWhile is_digit ds
             in if es = [] then None
                else Some ((if neg then - int (digits_value es) else int (digits_value es)),
                           dropWhile is_digit ds))
          else Some (0, s))"

definition parse_number :: "jsstring \<Rightarrow> (rat \<times> jsstring) option" where
  "parse_number s =
     (let neg = (case s of [] \<Rightarrow> False | c # _ \<Rightarrow> c = 0x2D);
          s1 = (if neg then tl s else s);
          ds = takeWhile is_digit s1
      in if ds = [] \<or> (1 < length ds \<and> hd ds = 0x30) then None
         else
           (case parse_fraction (dropWhile is_digit s1) of
              None \<Rightarrow> None
            | Some (f, s2) \<Rightarrow>
                (case parse_exponent s2 of
                   None \<Rightarrow> None
                 | Some (e, s3) \<Rightarrow>
                     let x = (of_nat (digits_value ds) + f) * 10 powi e
                     in Some (if neg then - x else x, s3))))"

text \<open>
  The Number that a numeric text of exact value \<open>x\<close> denotes: \<open>x\<close> rounded to the
  nearest double, and an infinity when the rounded value reaches \<open>2^1024\<close>, that is
  when its binade is 1024 or more.
\<close>

definition Number_value :: "rat \<Rightarrow> json" where
  "Number_value x =
     (let y = fl x
      in if 1024 \<le> binade y then (if 0 < y then JInfinity else JNegInfinity)
         else JNumber y)"

text \<open>
  Values.  \<open>parse_value\<close> reads one value and returns it with the rest of the input;
  \<open>parse_elements\<close> reads the elements of an array up to the closing bracket (0x5D),
  \<open>parse_members\<close> the members of an object up to the closing brace (0x7D).  The two
  tests \<open>length ds < length s\<close> are there for the termination proof only: the rest
  after a value is always shorter than the input it was read from (see
  \<open>parse_value_shorter\<close> below), so they never fail.
\<close>

lemma parse_chars_shorter: "parse_chars s = Some (str, r) \<Longrightarrow> length r < length s"
proof (induction s arbitrary: str r rule: parse_chars.induct)
  case 1
  then show ?case by simp
next
  case (2 c cs)
  then show ?case
    by (fastforce simp: cons_fst_def split: if_splits list.splits option.splits)
qed

lemma skip_ws_length: "length (skip_ws s) \<le> length s"
  by (simp add: skip_ws_def length_dropWhile_le)

function parse_value :: "jsstring \<Rightarrow> (json \<times> jsstring) option"
  and parse_elements :: "jsstring \<Rightarrow> (json list \<times> jsstring) option"
  and parse_members :: "jsstring \<Rightarrow> ((jsstring \<times> json) list \<times> jsstring) option"
where
  "parse_value s =
     (case skip_ws s of
        [] \<Rightarrow> None
      | c # cs \<Rightarrow>
          if c = 0x7B then
            (case skip_ws cs of
               [] \<Rightarrow> None
             | d # ds \<Rightarrow>
                 if d = 0x7D then Some (JObject [], ds)
                 else map_option (\<lambda>(ms, r). (JObject ms, r)) (parse_members (d # ds)))
          else if c = 0x5B then
            (case skip_ws cs of
               [] \<Rightarrow> None
             | d # ds \<Rightarrow>
                 if d = 0x5D then Some (JArray [], ds)
                 else map_option (\<lambda>(vs, r). (JArray vs, r)) (parse_elements (d # ds)))
          else if c = 0x22 then
            map_option (\<lambda>(str, r). (JString str, r)) (parse_chars cs)
          else if c = 0x2D \<or> is_digit c then
            map_option (\<lambda>(q, r). (Number_value q, r)) (parse_number (c # cs))
          else if take 4 (c # cs) = js ''true'' then Some (JBool True, drop 4 (c # cs))
          else if take 5 (c # cs) = js ''false'' then Some (JBool False, drop 5 (c # cs))
          else if take 4 (c # cs) = js ''null'' then Some (JNull, drop 4 (c # cs))
          else None)"
| "parse_elements s =
     (case parse_value s of
        None \<Rightarrow> None
      | Some (v, r) \<Rightarrow>
          (case skip_ws r of
             [] \<Rightarrow> None
           | d # ds \<Rightarrow>
               if d = 0x5D then Some ([v], ds)
               else if d = 0x2C \<and> length ds < length s then cons_fst v (parse_elements ds)
               else None))"
| "parse_members s =
     (case skip_ws s of
        [] \<Rightarrow> None
      | q # qs \<Rightarrow>
          if q \<noteq> 0x22 then None
          else
            (case parse_chars qs of
               None \<Rightarrow> None
             | Some (k, r) \<Rightarrow>
                 (case skip_ws r of
                    [] \<Rightarrow> None
                  | col # r1 \<Rightarrow>
                      if col \<noteq> 0x3A then None
                      else
                        (case parse_value r1 of
                           None \<Rightarrow> None
                         | Some (v, r2) \<Rightarrow>
                             (case skip_ws r2 of
                                [] \<Rightarrow> None
                              | d # ds \<Rightarrow>
                                  if d = 0x7D then Some ([(k, v)], ds)
                                  else if d = 0x2C \<and> length ds < length s
                                  then cons_fst (k, v) (parse_members ds)
                                  else None)))))"
  by pat_completeness auto
termination
proof (relation "measure (\<lambda>x. case x of
          Inl s \<Rightarrow> 2 * length s
        | Inr (Inl s) \<Rightarrow> 2 * length s + 1
        | Inr (Inr s) \<Rightarrow> 2 * length s + 1)", goal_cases)
  case 1
  show ?case by simp
next
  case (2 s c cs d ds)
  with skip_ws_length [of s] skip_ws_length [of cs] show ?case by simp
next
  case (3 s c cs d ds)
  with skip_ws_length [of s] skip_ws_length [of cs] show ?case by simp
next
  case (4 s)
  show ?case by simp
next
  case (5 s x v r d ds)
  then show ?case by simp
next
  case (6 s q qs x k r col r1)
  with skip_ws_length [of s] skip_ws_length [of r] parse_chars_shorter [of qs k r]
  show ?case by simp
next
  case (7 s q qs x k r col r1 y v r2 d ds)
  then show ?case by simp
qed

text \<open>\<open>JSON.parse\<close>: one value, with nothing but white space after it.\<close>

definition JSON_parse :: "jsstring \<Rightarrow> js_error + json" where
  "JSON_parse text =
     (case parse_value text of
        None \<Rightarrow> Inl SyntaxError
      | Some (v, r) \<Rightarrow> if skip_ws r = [] then Inr v else Inl SyntaxError)"


declare parse_value.simps [simp del] parse_elements.simps [simp del] parse_members.simps [simp del]

text \<open>
  \<open>JSON.stringify\<close> on a history.  \<open>QuoteJSONString\<close> escapes the quote, the
  backslash and the control characters, writes a surrogate pair as it is and a lone
  surrogate as a backslash, \<open>u\<close> and four lower-case hexadecimal digits.
\<close>

definition hex_digit :: "nat \<Rightarrow> 16 word" where
  "hex_digit n = (if n < 10 then 0x30 + of_nat n else 0x61 + of_nat (n - 10))"

definition UnicodeEscape :: "16 word \<Rightarrow> jsstring" where
  "UnicodeEscape c =
     [0x5C, 0x75,
      hex_digit (unat c div 4096), hex_digit (unat c div 256 mod 16),
      hex_digit (unat c div 16 mod 16), hex_digit (unat c mod 16)]"

definition is_high :: "16 word \<Rightarrow> bool" where
  "is_high c \<longleftrightarrow> 0xD800 \<le> c \<and> c \<le> 0xDBFF"

definition is_low :: "16 word \<Rightarrow> bool" where
  "is_low c \<longleftrightarrow> 0xDC00 \<le> c \<and> c \<le> 0xDFFF"

definition quote_unit :: "16 word \<Rightarrow> jsstring" where
  "quote_unit c =
     (if c = 0x08 then [0x5C, 0x62]
      else if c = 0x09 then [0x5C, 0x74]
      else if c = 0x0A then [0x5C, 0x6E]
      else if c = 0x0C then [0x5C, 0x66]
      else if c = 0x0D then [0x5C, 0x72]
      else if c = 0x22 then [0x5C, 0x22]
      else if c = 0x5C then [0x5C, 0x5C]
      else if c < 0x20 \<or> is_high c \<or> is_low c then UnicodeEscape c
      else [c])"

fun quote_units :: "jsstring \<Rightarrow> jsstring" where
  "quote_units [] = []"
| "quote_units [c] = quote_unit c"
| "quote_units (c # d # ds) =
     (if is_high c \<and> is_low d then c # d # quote_units ds
      else quote_unit c @ quote_units (d # ds))"

definition QuoteJSONString :: "jsstring \<Rightarrow> jsstring" where
  "QuoteJSONString s = 0x22 # quote_units s @ [0x22]"

text \<open>
  An integer that a Number holds exactly and next to no other integer is a safe integer.
  \<open>Number::toString\<close> writes a safe integer with its decimal digits.  The timestamps
  of the entries are safe integers: a clock reading in milliseconds is far below
  \<open>2^53\<close>, and a stored number is read as a timestamp only when it is one
  (\<open>integer_of\<close> below); \<open>Number_toString\<close> is meant for these only.
\<close>

definition safe_integer :: "int \<Rightarrow> bool" where
  "safe_integer n \<longleftrightarrow> \<bar>n\<bar> < 2 ^ 53"

fun digits :: "nat \<Rightarrow> jsstring" where
  "digits n = (if n < 10 then [0x30 + of_nat n] else digits (n div 10) @ [0x30 + of_nat (n mod 10)])"

declare digits.simps [simp del]

definition Number_toString :: "int \<Rightarrow> jsstring" where
  "Number_toString n = (if n < 0 then 0x2D # digits (nat (- n)) else digits (nat n))"

text \<open>
  An entry is written as an object with its five properties in the order of their
  creation, without white space; the history as an array of them.
\<close>

definition member :: "string \<Rightarrow> jsstring \<Rightarrow> jsstring" where
  "member k v = QuoteJSONString (js k) @ 0x3A # v"

definition stringify_item :: "QRHistoryItem \<Rightarrow> jsstring" where
  "stringify_item it =
     0x7B # member ''id'' (QuoteJSONString (QRHistoryItem.id' it))
      @ 0x2C # member ''url'' (QuoteJSONString (QRHistoryItem.url it))
      @ 0x2C # member ''fgColor'' (QuoteJSONString (QRHistoryItem.fgColor it))
      @ 0x2C # member ''bgColor'' (QuoteJSONString (QRHistoryItem.bgColor it))
      @ 0x2C # member ''timestamp'' (Number_toString (QRHistoryItem.timestamp it))
      @ [0x7D]"

fun join_comma :: "jsstring list \<Rightarrow> jsstring" where
  "join_comma [] = []"
| "join_comma [x] = x"
| "join_comma (x # y # ys) = x @ 0x2C # join_comma (y # ys)"

definition JSON_stringify :: "QRHistoryItem list \<Rightarrow> jsstring" where
  "JSON_stringify h = 0x5B # join_comma (map stringify_item h) @ [0x5D]"

text \<open>
  The JSON value that is an entry.  Conversely \<open>as_item\<close> and \<open>as_history\<close> tell
  which JSON values the records of this theory can hold, and as what: a value \<open>v\<close> is
  read as the history \<open>h\<close> exactly when \<open>v\<close> is the array of \<open>json_of_item\<close> of
  the entries of \<open>h\<close> (an array of objects with the properties \<open>id\<close>, \<open>url\<close>,
  \<open>fgColor\<close>, \<open>bgColor\<close>, all strings, and \<open>timestamp\<close>, a safe integer, in that
  order and no other).  These two functions are no part of \<open>App.tsx\<close>, which never looks
  at a parsed value.
\<close>

definition json_of_item :: "QRHistoryItem \<Rightarrow> json" where
  "json_of_item it =
     JObject [(js ''id'', JString (QRHistoryItem.id' it)),
              (js ''url'', JString (QRHistoryItem.url it)),
              (js ''fgColor'', JString (QRHistoryItem.fgColor it)),
              (js ''bgColor'', JString (QRHistoryItem.bgColor it)),
              (js ''timestamp'', JNumber (of_int (QRHistoryItem.timestamp it)))]"

definition string_of :: "json \<Rightarrow> jsstring option" where
  "string_of v = (case v of JString s \<Rightarrow> Some s | _ \<Rightarrow> None)"

definition integer_of :: "json \<Rightarrow> int option" where
  "integer_of v =
     (case v of
        JNumber q \<Rightarrow> if of_int \<lfloor>q\<rfloor> = q \<and> safe_integer \<lfloor>q\<rfloor> then Some \<lfloor>q\<rfloor> else None
      | _ \<Rightarrow> None)"

definition as_item :: "json \<Rightarrow> QRHistoryItem option" where
  "as_item v =
     (case v of
        JObject ms \<Rightarrow>
          if map fst ms = [js ''id'', js ''url'', js ''fgColor'', js ''bgColor'', js ''timestamp'']
          then
            (case (string_of (snd (ms ! 0)), string_of (snd (ms ! 1)), string_of (snd (ms ! 2)),
                   string_of (snd (ms ! 3)), integer_of (snd (ms ! 4))) of
               (Some a, Some b, Some c, Some d, Some t) \<Rightarrow>
                 Some \<lparr> id' = a, url = b, fgColor = c, bgColor = d, timestamp = t \<rparr>
             | _ \<Rightarrow> None)
          else None
      | _ \<Rightarrow> None)"

definition as_history :: "json \<Rightarrow> QRHistoryItem list option" where
  "as_history v = (case v of JArray vs \<Rightarrow> those (map as_item vs) | _ \<Rightarrow> None)"

section \<open>The page around the component\<close>

text \<open>
  What the component reads and writes outside its own state: the key-value store
  \<open>localStorage\<close>, the files handed to the browser for download, and the messages
  written with \<open>console.error\<close>.
\<close>

record download =
  download_name :: jsstring
  href :: canvas

record World =
  app :: App
  localStorage :: "jsstring \<rightharpoonup> jsstring"
  downloads :: "download list"
  console_error :: "jsstring list"

text \<open>
  What one run of \<open>downloadQR\<close> reads from outside: whether the symbol canvas is in
  the document (\<open>qrRef.current?.querySelector('canvas')\<close>), whether
  \<open>getContext('2d')\<close> returned a context, the \<open>Date.now()\<close> of the file name, and
  what \<open>addToHistory\<close> reads.
\<close>

record export_env =
  qrCanvas :: bool
  ctx :: bool
  Date_now_name :: int
  history_env :: add_env

text \<open>
  The save effect (lines 56 to 58) writes the whole history under the key
  \<open>qr_history\<close>.  It runs after every render in which \<open>history\<close> changed.
\<close>

definition useEffect_save :: "World \<Rightarrow> World" where
  "useEffect_save w =
     w\<lparr> localStorage := (localStorage w)(js ''qr_history'' \<mapsto> JSON_stringify (history (app w))) \<rparr>"

text \<open>
  The load effect (lines 44 to 53).  \<open>if (saved)\<close> holds for a string that is there
  and not empty.  A \<open>SyntaxError\<close> of \<open>JSON.parse\<close> is caught and logged.
  Otherwise \<open>setHistory(JSON.parse(saved))\<close> puts the parsed value into the history
  cell as it is, whatever it is; the effect looks at nothing in it.  The cell of the record
  \<open>App\<close> holds a list of \<open>QRHistoryItem\<close> records, so the result says in one of
  two ways what the cell holds afterwards:
  \<^item> \<open>Entries w'\<close>: the world is \<open>w'\<close>, and the cell holds the list
    \<open>history (app w')\<close>, of any length and with any addresses; this is the result
    exactly when the parsed value is the array of the entries of that list
    (\<open>as_history_Some\<close>, \<open>as_history_json_of_items\<close>);
  \<^item> \<open>Other w' v\<close>: the cell holds the parsed value \<open>v\<close>, which is the array of
    the entries of no list of records (\<open>null\<close>, a number, an array of objects with
    other properties or with these in another order, ...); everything but the cell is as in
    \<open>w'\<close>.
  \<open>history_cell\<close> is the JavaScript value in the cell in either case: the parsed value
  (\<open>load_installs\<close>).
\<close>

datatype loaded = Entries World | Other World json

definition useEffect_load :: "World \<Rightarrow> loaded" where
  "useEffect_load w =
     (case localStorage w (js ''qr_history'') of
        None \<Rightarrow> Entries w
      | Some saved \<Rightarrow>
          if saved = [] then Entries w
          else
            (case JSON_parse saved of
               Inl e \<Rightarrow>
                 Entries (w\<lparr> console_error := console_error w @ [js ''Failed to parse history''] \<rparr>)
             | Inr v \<Rightarrow>
                 (case as_history v of
                    Some h \<Rightarrow> Entries (w\<lparr> app := (app w)\<lparr> history := h \<rparr> \<rparr>)
                  | None \<Rightarrow> Other w v)))"

definition history_cell :: "loaded \<Rightarrow> json" where
  "history_cell l =
     (case l of
        Entries w \<Rightarrow> JArray (map json_of_item (history (app w)))
      | Other w v \<Rightarrow> v)"

definition entries_world :: "loaded \<Rightarrow> World option" where
  "entries_world l = (case l of Entries w \<Rightarrow> Some w | Other w v \<Rightarrow> None)"

text \<open>
  Mounting the component on a page whose store is that of \<open>w\<close>: the state starts as
  \<open>initial\<close>, the load effect runs, then the save effect of the first render (which
  still sees the empty history), then the save effect of the render that follows the
  update of \<open>history\<close>.  What the render and the save effect do with a cell that holds
  a value of the second kind (the render may throw, the save effect writes that value) is
  not modelled: the result is \<open>None\<close> there.
\<close>

definition mount :: "World \<Rightarrow> World option" where
  "mount w =
     (let w0 = w\<lparr> app := initial \<rparr>
      in case useEffect_load w0 of
           Other w1 v \<Rightarrow> None
         | Entries w1 \<Rightarrow>
             let w2 = w1\<lparr> localStorage :=
                          (localStorage w1)(js ''qr_history'' \<mapsto> JSON_stringify (history (app w0))) \<rparr>
             in Some (useEffect_save w2))"

text \<open>
  \<open>downloadQR\<close> (lines 77 to 120).  The file name is
  \<open>qr-code-${Date.now()}.png\<close>; the image is the composed canvas.
\<close>

definition downloadQR :: "export_env \<Rightarrow> World \<Rightarrow> World" where
  "downloadQR e w =
     (if \<not> qrCanvas e then w
      else if \<not> ctx e then w
      else
        let st = app w;
            file = \<lparr> download_name = js ''qr-code-'' @ Number_toString (Date_now_name e) @ js ''.png'',
                     href = mainCanvas (size' st) (App.bgColor st) \<rparr>
        in w\<lparr> downloads := downloads w @ [file],
              app := addToHistory (history_env e) st \<rparr>)"

text \<open>
  The download button (lines 330 to 333) is disabled when \<open>!url\<close>, that is when the
  address is the empty string.  A click on the enabled button runs \<open>downloadQR\<close>; when
  that changed \<open>history\<close> the component renders again and the save effect runs.
\<close>

definition disabled :: "App \<Rightarrow> bool" where
  "disabled st \<longleftrightarrow> App.url st = []"

definition click_download :: "export_env \<Rightarrow> World \<Rightarrow> World" where
  "click_download e w =
     (if disabled (app w) then w
      else
        let w' = downloadQR e w
        in if history (app w') = history (app w) then w' else useEffect_save w')"

section \<open>Valid histories\<close>

text \<open>
  The invariants that the spec states for a history: at most ten entries, each with a
  trimmed, non-empty address and a clock reading in milliseconds (a non-negative integer
  that a Number holds exactly).
\<close>

definition valid_entry :: "QRHistoryItem \<Rightarrow> bool" where
  "valid_entry it \<longleftrightarrow>
     QRHistoryItem.url it \<noteq> [] \<and> trim (QRHistoryItem.url it) = QRHistoryItem.url it
     \<and> 0 \<le> timestamp it \<and> timestamp it < 2 ^ 53"

definition valid_history :: "QRHistoryItem list \<Rightarrow> bool" where
  "valid_history h \<longleftrightarrow> length h \<le> 10 \<and> list_all valid_entry h"

section \<open>Concrete inputs\<close>

text \<open>Calls and environments at which the theorems below are evaluated.\<close>

definition call :: "string \<Rightarrow> string \<Rightarrow> int \<Rightarrow> add_call" where
  "call a i t = \<lparr> address = js a, foreground = js ''#000000'', background = js ''#ffffff'',
      env = \<lparr> Math_random_id = js i, Date_now = t \<rparr> \<rparr>"

definition eleven :: "add_call list" where
  "eleven = map (\<lambda>n. call (replicate n CHR ''a'') ''id'' (int n)) [1..<12]"

definition env1 :: add_env where
  "env1 = \<lparr> Math_random_id = js ''k3x9q0zr1'', Date_now = 1700000000000 \<rparr>"

definition env2 :: add_env where
  "env2 = \<lparr> Math_random_id = js ''p07ab1cd2'', Date_now = 1700000005000 \<rparr>"

definition tabs :: App where
  "tabs = (addToHistory env1 initial)\<lparr> url := [0x09, 0x3000, 0x20, 0xFEFF] \<rparr>"

definition same_id_calls :: "add_call list" where
  "same_id_calls = [call ''https://a.example'' ''k3x9q0zr1'' 1700000000000,
                    call ''https://b.example'' ''k3x9q0zr1'' 1700000005000]"

definition distinct_id_calls :: "add_call list" where
  "distinct_id_calls = [call ''https://a.example'' ''k3x9q0zr1'' 1700000000000,
                        call ''https://b.example'' ''p07ab1cd2'' 1700000005000]"

definition entry1 :: QRHistoryItem where
  "entry1 = \<lparr> id' = js ''k3x9q0zr1'', url = js ''https://a.example'', fgColor = js ''#000000'',
       bgColor = js ''#ffffff'', timestamp = 1700000000000 \<rparr>"

definition entry2 :: QRHistoryItem where
  "entry2 = \<lparr> id' = js ''p07ab1cd2'', url = [0x22, 0x5C, 0x0A, 0xD83D, 0xDE00, 0xDC00],
       fgColor = js ''#112233'', bgColor = js ''#ffffff'', timestamp = 1700000005000 \<rparr>"

definition page0 :: World where
  "page0 = \<lparr> app = initial, localStorage = Map.empty, downloads = [], console_error = [] \<rparr>"

definition corrupt_page :: World where
  "corrupt_page = page0\<lparr> localStorage := [js ''qr_history'' \<mapsto> js ''{broken''] \<rparr>"

definition blank_entry :: QRHistoryItem where
  "blank_entry = \<lparr> id' = js ''a'', url = js ''   '', fgColor = js ''#000000'',
       bgColor = js ''#ffffff'', timestamp = 1 \<rparr>"

definition eleven_blob :: jsstring where
  "eleven_blob = JSON_stringify (replicate 11 blank_entry)"

definition blank_blob :: jsstring where
  \<open>blank_blob =
     js '' [ {"id":"a", "url":"  x ", "fgColor":"#000000", "bgColor":"#ffffff", "timestamp":1} ] ''\<close>

definition stored :: "jsstring \<Rightarrow> World" where
  "stored saved = page0\<lparr> localStorage := [js ''qr_history'' \<mapsto> saved] \<rparr>"

definition export_env0 :: export_env where
  "export_env0 = \<lparr> qrCanvas = True, ctx = True, Date_now_name = 1700000000123,
      history_env = env1 \<rparr>"

definition blank_page :: World where
  "blank_page = page0\<lparr> app := initial\<lparr> url := (js ''   '') \<rparr> \<rparr>"

definition empty_page :: World where
  "empty_page = page0\<lparr> app := initial\<lparr> url := [] \<rparr> \<rparr>"

definition reordered_blob :: jsstring where
  \<open>reordered_blob =
     js ''[{"url":"https://a.example","id":"a","fgColor":"#000000","bgColor":"#ffffff","timestamp":1}]''\<close>

definition null_blob :: jsstring where
  "null_blob = js ''null''"

section \<open>Facts about the rounding of Numbers\<close>

text \<open>
  Rounding to the nearest double moves a value of magnitude in \<open>[1, 2^k)\<close> by at most
  \<open>2^(k-54)\<close>.  From this: how far the composer's padding and total side are from
  the exact values of the formulas.
\<close>

lemma round_half_even_error: "\<bar>of_int (round_half_even q) - q\<bar> \<le> 1 / 2"
proof -
  have "of_int \<lfloor>q\<rfloor> \<le> q" "q < of_int \<lfloor>q\<rfloor> + 1"
    using floor_correct [of q] by simp_all
  then show ?thesis
    by (auto simp: round_half_even_def Let_def)
qed

lemma ilog2_less: "0 < n \<Longrightarrow> n < 2 ^ k \<Longrightarrow> ilog2 n < k"
proof (induction n arbitrary: k rule: ilog2.induct)
  case (1 n)
  show ?case
  proof (cases "n < 2")
    case True
    from "1.prems" have "k \<noteq> 0" by (cases k) auto
    with True show ?thesis by (simp add: ilog2.simps [of n])
  next
    case False
    from "1.prems" False obtain j where k: "k = Suc j"
      by (cases k) auto
    from False have "0 < n div 2" by simp
    moreover from "1.prems" k have "n div 2 < 2 ^ j" by simp
    ultimately have "ilog2 (n div 2) < j"
      using False by (simp add: "1.IH")
    with False k show ?thesis by (simp add: ilog2.simps [of n])
  qed
qed

lemma binade_range:
  assumes "1 \<le> \<bar>x\<bar>" and "\<bar>x\<bar> < 2 ^ k"
  shows "0 \<le> binade x" and "binade x < int k"
proof -
  have b: "binade x = int (ilog2 (nat \<lfloor>\<bar>x\<bar>\<rfloor>))"
    using assms(1) by (simp add: binade_def)
  then show "0 \<le> binade x" by simp
  have "1 \<le> \<lfloor>\<bar>x\<bar>\<rfloor>" using assms(1) by (simp add: le_floor_iff)
  then have 1: "0 < nat \<lfloor>\<bar>x\<bar>\<rfloor>" by simp
  have "\<lfloor>\<bar>x\<bar>\<rfloor> < 2 ^ k"
    using assms(2) by (simp add: floor_less_iff)
  then have 2: "nat \<lfloor>\<bar>x\<bar>\<rfloor> < 2 ^ k"
    using \<open>1 \<le> \<lfloor>\<bar>x\<bar>\<rfloor>\<close> by (simp add: nat_less_iff)
  from ilog2_less [OF 1 2] b show "binade x < int k" by simp
qed


lemma fl_error:
  assumes "x \<noteq> 0"
  shows "\<bar>fl x - x\<bar> \<le> 2 powi (max (binade x) (- 1022) - 52) / 2"
proof -
  define u :: rat where "u = 2 powi (max (binade x) (- 1022) - 52)"
  have u: "0 < u" by (simp add: u_def zero_less_power_int)
  have "fl x = of_int (round_half_even (x / u)) * u"
    using assms by (simp add: fl_def Let_def u_def)
  then have "fl x - x = (of_int (round_half_even (x / u)) - x / u) * u"
    using u by (simp add: algebra_simps)
  then have "\<bar>fl x - x\<bar> = \<bar>of_int (round_half_even (x / u)) - x / u\<bar> * u"
    using u by (simp add: abs_mult)
  also have "\<dots> \<le> (1 / 2) * u"
    using round_half_even_error [of "x / u"] u by (intro mult_right_mono) simp_all
  finally show ?thesis by (simp add: u_def)
qed

lemma fl_error_below:
  assumes "1 \<le> \<bar>x\<bar>" and "\<bar>x\<bar> < 2 ^ k"
  shows "\<bar>fl x - x\<bar> \<le> 2 powi (int k - 54)"
proof -
  from assms(1) have nz: "x \<noteq> 0" by auto
  from binade_range [OF assms] have b: "0 \<le> binade x" "binade x \<le> int k - 1" by simp_all
  then have "max (binade x) (- 1022) - 52 \<le> int k - 53" by simp
  then have "(2::rat) powi (max (binade x) (- 1022) - 52) \<le> 2 powi (int k - 53)"
    by (rule power_int_increasing) simp
  then have "(2::rat) powi (max (binade x) (- 1022) - 52) / 2 \<le> 2 powi (int k - 53) / 2"
    by simp
  also have "(2::rat) powi (int k - 53) / 2 = 2 powi (int k - 54)"
    using power_int_diff [of "2::rat" "int k - 53" 1] by simp
  finally show ?thesis
    using fl_error [OF nz] by simp
qed

lemma round_half_even_of_int: "round_half_even (of_int m) = m"
  by (simp add: round_half_even_def Let_def)

lemma fl_of_int:
  assumes "\<bar>n\<bar> < 2 ^ 53"
  shows "fl (of_int n) = of_int n"
proof (cases "n = 0")
  case True
  then show ?thesis by (simp add: fl_def)
next
  case False
  define x :: rat where "x = of_int n"
  from False have "1 \<le> \<bar>n\<bar>" by simp
  then have "(1::rat) \<le> \<bar>of_int n\<bar>"
    by (metis of_int_1 of_int_abs of_int_le_iff)
  then have x1: "1 \<le> \<bar>x\<bar>" by (simp add: x_def)
  from assms have "(of_int \<bar>n\<bar> :: rat) < of_int (2 ^ 53)"
    by (simp only: of_int_less_iff)
  then have x2: "\<bar>x\<bar> < 2 ^ 53" by (simp add: x_def)
  from binade_range [OF x1 x2] have b: "0 \<le> binade x" "binade x \<le> 52" by simp_all
  define k where "k = nat (52 - binade x)"
  from b have u: "(2::rat) powi (max (binade x) (- 1022) - 52) = 1 / 2 ^ k"
    by (simp add: k_def power_int_def max_def field_simps)
  have "x / (1 / 2 ^ k) = of_int (n * 2 ^ k)"
    by (simp add: x_def)
  then have "round_half_even (x / (1 / 2 ^ k)) = n * 2 ^ k"
    by (simp only: round_half_even_of_int)
  moreover from x1 have "x \<noteq> 0" by auto
  ultimately have "fl x = of_int (n * 2 ^ k) * (1 / 2 ^ k)"
    by (simp add: fl_def Let_def u)
  then show ?thesis by (simp add: x_def)
qed

lemma literal_0_1_value: "literal_0_1 = 3602879701896397 / 36028797018963968"
  unfolding literal_0_1_def by code_simp

lemma max_20_diff: "\<bar>max 20 a - max 20 b\<bar> \<le> \<bar>a - b\<bar>" for a b :: rat
  by (simp add: max_def abs_if)

lemma padding_accuracy:
  assumes "128 \<le> sz" and "sz \<le> 512"
  shows "\<bar>padding sz - max 20 (of_int sz / 10)\<bar> \<le> 1 / 2 ^ 47"
    and "20 \<le> padding sz" and "padding sz < 52"
proof -
  define x :: rat where "x = of_int sz * literal_0_1"
  define \<epsilon> :: rat where "\<epsilon> = 1 / 2 ^ 48"
  have \<epsilon>: "0 < \<epsilon>" "\<epsilon> \<le> 1 / 8" "\<epsilon> + \<epsilon> = 1 / 2 ^ 47"
    by (simp_all add: \<epsilon>_def)
  have sz: "(128::rat) \<le> of_int sz" "(of_int sz :: rat) \<le> 512"
    using assms by simp_all
  have x: "x = of_int sz / 10 + of_int sz / 180143985094819840"
    by (simp add: x_def literal_0_1_value field_simps)
  have "(512::rat) / 180143985094819840 \<le> \<epsilon>"
    by (simp add: \<epsilon>_def)
  moreover from sz have "(of_int sz :: rat) / 180143985094819840 \<le> 512 / 180143985094819840"
    by (simp add: divide_right_mono)
  moreover from sz have "(0::rat) \<le> of_int sz / 180143985094819840"
    by simp
  ultimately have d: "0 \<le> x - of_int sz / 10" "x - of_int sz / 10 \<le> \<epsilon>"
    unfolding x by linarith+
  from sz have "(of_int sz :: rat) / 10 \<le> 512 / 10" "(128::rat) / 10 \<le> of_int sz / 10"
    by (simp_all add: divide_right_mono)
  with d \<epsilon> have lo: "12 \<le> x" and hi: "x < 103 / 2"
    by linarith+
  then have "1 \<le> \<bar>x\<bar>" and "\<bar>x\<bar> < 2 ^ 6" by simp_all
  then have "\<bar>fl x - x\<bar> \<le> 2 powi (int 6 - 54)" by (rule fl_error_below)
  also have "(2::rat) powi (int 6 - 54) = \<epsilon>" unfolding \<epsilon>_def by code_simp
  finally have e: "\<bar>fl x - x\<bar> \<le> \<epsilon>" .
  have p: "padding sz = max 20 (fl x)"
    by (simp add: padding_def Number_multiply_def x_def)
  have "\<bar>padding sz - max 20 (of_int sz / 10)\<bar> \<le> \<bar>fl x - of_int sz / 10\<bar>"
    unfolding p by (rule max_20_diff)
  also have "\<dots> \<le> \<epsilon> + \<epsilon>" using e d by linarith
  finally show "\<bar>padding sz - max 20 (of_int sz / 10)\<bar> \<le> 1 / 2 ^ 47"
    by (simp only: \<epsilon>(3))
  show "20 \<le> padding sz" by (simp add: p)
  from e hi \<epsilon> have "fl x < 52" by linarith
  then show "padding sz < 52" by (simp add: p)
qed

lemma totalSize_accuracy:
  assumes "128 \<le> sz" and "sz \<le> 512"
  shows "\<bar>totalSize sz - (of_int sz + 2 * max 20 (of_int sz / 10))\<bar> \<le> 1 / 2 ^ 43"
proof -
  define p where "p = padding sz"
  define y where "y = fl (p * 2)"
  define z where "z = of_int sz + y"
  define q :: rat where "q = max 20 (of_int sz / 10)"
  define \<epsilon> :: rat where "\<epsilon> = 1 / 2 ^ 47"
  have \<epsilon>: "0 < \<epsilon>" "\<epsilon> \<le> 1 / 2" "8 * \<epsilon> + \<epsilon> + 2 * \<epsilon> \<le> 1 / 2 ^ 43"
    by (simp_all add: \<epsilon>_def)
  have sz: "(128::rat) \<le> of_int sz" "(of_int sz :: rat) \<le> 512"
    using assms by simp_all
  note pa = padding_accuracy [OF assms, folded p_def q_def \<epsilon>_def]
  from pa(2,3) have "1 \<le> \<bar>p * 2\<bar>" and "\<bar>p * 2\<bar> < 2 ^ 7" by simp_all
  then have "\<bar>fl (p * 2) - p * 2\<bar> \<le> 2 powi (int 7 - 54)" by (rule fl_error_below)
  also have "(2::rat) powi (int 7 - 54) = \<epsilon>" unfolding \<epsilon>_def by code_simp
  finally have ey: "\<bar>y - p * 2\<bar> \<le> \<epsilon>" by (simp only: y_def)
  with pa(2,3) \<epsilon> have yr: "39 \<le> y" "y < 105" by linarith+
  with sz have "1 \<le> z" "z < 1024" unfolding z_def by linarith+
  then have "1 \<le> \<bar>z\<bar>" and "\<bar>z\<bar> < 2 ^ 10" by simp_all
  then have "\<bar>fl z - z\<bar> \<le> 2 powi (int 10 - 54)" by (rule fl_error_below)
  also have "(2::rat) powi (int 10 - 54) = 8 * \<epsilon>" unfolding \<epsilon>_def by code_simp
  finally have ez: "\<bar>fl z - z\<bar> \<le> 8 * \<epsilon>" .
  have t: "totalSize sz = fl z"
    by (simp add: totalSize_def Number_add_def Number_multiply_def z_def y_def p_def)
  have "\<bar>fl z - (of_int sz + 2 * q)\<bar> \<le> 8 * \<epsilon> + \<epsilon> + 2 * \<epsilon>"
    using ez ey pa(1) unfolding z_def by linarith
  with \<epsilon>(3) have "\<bar>fl z - (of_int sz + 2 * q)\<bar> \<le> 1 / 2 ^ 43"
    by (rule order_trans [rotated])
  then show ?thesis by (simp only: t q_def)
qed

lemma composer_128: "padding 128 = 20" "totalSize 128 = 168"
  unfolding padding_def totalSize_def Number_multiply_def Number_add_def literal_0_1_def
  by code_simp+

lemma composer_256: "padding 256 = fl (128 / 5)" "totalSize 256 = fl (1536 / 5)"
  unfolding padding_def totalSize_def Number_multiply_def Number_add_def literal_0_1_def
  by code_simp+

lemma composer_256_values:
  "fl (128 / 5) = 128 / 5 + 1 / 703687441776640"
  "fl (1536 / 5) = 1536 / 5 - 1 / 87960930222080"
  by code_simp+

section \<open>Facts about trimming\<close>

lemma trim_Nil: "trim [] = []"
  by (simp add: trim_def)

lemma trim_nonempty: "trim s \<noteq> [] \<Longrightarrow> s \<noteq> []"
  by (auto simp: trim_def)

lemma isWhiteSpace_space: "isWhiteSpace 0x20"
  by (simp add: isWhiteSpace_def)

lemma trim_blank:
  assumes "\<forall>c \<in> set s. isWhiteSpace c"
  shows "trim s = []"
proof -
  from assms have "dropWhile isWhiteSpace s = []"
    by (auto dest: set_dropWhileD)
  then show ?thesis by (simp add: trim_def del: dropWhile_eq_Nil_conv)
qed

lemma trim_eq_Nil_iff: "trim s = [] \<longleftrightarrow> (\<forall>c \<in> set s. isWhiteSpace c)"
proof
  assume "trim s = []"
  then have "dropWhile isWhiteSpace (rev (dropWhile isWhiteSpace s)) = []"
    by (simp add: trim_def)
  then have "\<forall>c \<in> set (dropWhile isWhiteSpace s). isWhiteSpace c"
    by simp
  moreover have "dropWhile isWhiteSpace s \<noteq> [] \<Longrightarrow>
      \<not> isWhiteSpace (hd (dropWhile isWhiteSpace s))"
    by (rule hd_dropWhile)
  ultimately have "dropWhile isWhiteSpace s = []"
    by (cases "dropWhile isWhiteSpace s") auto
  then show "\<forall>c \<in> set s. isWhiteSpace c"
    by simp
next
  assume "\<forall>c \<in> set s. isWhiteSpace c"
  then show "trim s = []" by (rule trim_blank)
qed

section \<open>Facts about the add operation\<close>

lemma add_blank: "trim (address c) = [] \<Longrightarrow> history (add c st) = history st"
  by (simp add: add_def addToHistory_def)

lemma add_head_same:
  "history st = x # xs \<Longrightarrow> QRHistoryItem.url x = trim (address c) \<Longrightarrow>
   history (add c st) = history st"
  by (simp add: add_def addToHistory_def Let_def)

lemma add_new:
  assumes "trim (address c) \<noteq> []"
    and "history st = [] \<or> QRHistoryItem.url (hd (history st)) \<noteq> trim (address c)"
  shows "history (add c st) = take 10 (entry_of c # history st)"
proof -
  from assms(1) have ne: "address c \<noteq> []" by (rule trim_nonempty)
  show ?thesis
  proof (cases "history st")
    case Nil
    with assms(1) ne show ?thesis
      by (simp add: add_def addToHistory_def Let_def entry_of_def)
  next
    case (Cons x xs)
    with assms ne show ?thesis
      by (simp add: add_def addToHistory_def Let_def entry_of_def)
  qed
qed

lemma adds_append: "adds (cs @ ds) st = adds ds (adds cs st)"
  by (induction cs arbitrary: st) simp_all

lemma adds_snoc: "adds (cs @ [c]) st = add c (adds cs st)"
  by (simp add: adds_append)

lemma take_Cons_take: "take n (x # take n xs) = take n (x # xs)"
  by (cases n) simp_all

lemma add_cases:
  "history (add c st) = history st \<or> history (add c st) = take 10 (entry_of c # history st)"
  by (simp add: add_def addToHistory_def Let_def entry_of_def)

lemma adds_distinct_addresses:
  assumes "history st = []"
    and "distinct (map (\<lambda>c. trim (address c)) cs)"
    and "\<forall>c \<in> set cs. trim (address c) \<noteq> []"
  shows "history (adds cs st) = take 10 (rev (map entry_of cs))"
  using assms(2,3)
proof (induction cs rule: rev_induct)
  case Nil
  show ?case using assms(1) by simp
next
  case (snoc c cs)
  then have IH: "history (adds cs st) = take 10 (rev (map entry_of cs))"
    by simp
  have fresh: "trim (address c) \<notin> (\<lambda>c. trim (address c)) ` set cs"
    using snoc.prems(1) by simp
  have head: "history (adds cs st) = [] \<or>
      QRHistoryItem.url (hd (history (adds cs st))) \<noteq> trim (address c)"
  proof (cases cs rule: rev_cases)
    case Nil
    then show ?thesis using assms(1) by simp
  next
    case (snoc ds d)
    then have "hd (history (adds cs st)) = entry_of d"
      using IH by simp
    moreover have "trim (address d) \<noteq> trim (address c)"
      using fresh snoc by auto
    ultimately show ?thesis by (simp add: entry_of_def)
  qed
  have "history (adds (cs @ [c]) st) = take 10 (entry_of c # history (adds cs st))"
    using snoc.prems(2) head by (simp add: adds_snoc add_new)
  then show ?case by (simp add: IH take_Cons_take)
qed

lemma add_ids:
  "set (map id' (history (add c st)))
     \<subseteq> insert (Math_random_id (env c)) (set (map id' (history st)))"
proof -
  have "set (take 10 (entry_of c # history st)) \<subseteq> set (entry_of c # history st)"
    by (rule set_take_subset)
  then have "id' ` set (take 10 (entry_of c # history st))
      \<subseteq> id' ` set (entry_of c # history st)"
    by (rule image_mono)
  also have "\<dots> = insert (Math_random_id (env c)) (id' ` set (history st))"
    by (simp add: entry_of_def)
  finally have new: "set (map id' (take 10 (entry_of c # history st)))
      \<subseteq> insert (Math_random_id (env c)) (set (map id' (history st)))"
    by (simp only: set_map)
  from add_cases [of c st] show ?thesis
  proof
    assume "history (add c st) = history st"
    then show ?thesis by auto
  next
    assume "history (add c st) = take 10 (entry_of c # history st)"
    with new show ?thesis by (simp only:)
  qed
qed

lemma adds_ids:
  "history st = [] \<Longrightarrow>
   set (map id' (history (adds cs st))) \<subseteq> set (map (\<lambda>c. Math_random_id (env c)) cs)"
proof (induction cs rule: rev_induct)
  case Nil
  then show ?case by simp
next
  case (snoc c cs)
  then have "set (map id' (history (adds cs st))) \<subseteq> set (map (\<lambda>c. Math_random_id (env c)) cs)"
    by simp
  with add_ids [of c "adds cs st"] show ?case
    by (auto simp: adds_snoc)
qed

section \<open>Facts about JSON\<close>

subsection \<open>Strings\<close>

lemma hex_parts:
  fixes n :: nat
  shows "n div 4096 * 4096 + n div 256 mod 16 * 256 + n div 16 mod 16 * 16 + n mod 16 = n"
proof -
  define a where "a = n div 16"
  define b where "b = a div 16"
  define c where "c = b div 16"
  define x where "x = n mod 16"
  define y where "y = a mod 16"
  define z where "z = b mod 16"
  have b: "n div 256 = b"
    by (simp add: a_def b_def div_mult2_eq)
  have c: "n div 4096 = c"
    by (simp add: a_def b_def c_def div_mult2_eq)
  have 1: "n = a * 16 + x" by (simp add: a_def x_def)
  have 2: "a = b * 16 + y" by (simp add: b_def y_def)
  have 3: "b = c * 16 + z" by (simp add: c_def z_def)
  have "c * 4096 + z * 256 + y * 16 + x = n"
    using 1 2 3 by linarith
  then show ?thesis
    by (simp only: b c a_def [symmetric] x_def y_def z_def)
qed

lemma unat_code_unit:
  assumes "a + n < 65536"
  shows "unat (of_nat a + of_nat n :: 16 word) = a + n"
  by (rule of_nat_inverse) (use assms in simp_all)

lemma hex_value_hex_digit:
  assumes "n < 16"
  shows "hex_value (hex_digit n) = Some n"
proof (cases "n < 10")
  case True
  then have "unat (0x30 + of_nat n :: 16 word) = 48 + n"
    using unat_code_unit [of 48 n] by simp
  with True show ?thesis
    by (simp add: hex_value_def hex_digit_def word_le_nat_alt)
next
  case False
  with assms have "unat (0x61 + of_nat (n - 10) :: 16 word) = 87 + n"
    using unat_code_unit [of 97 "n - 10"] by simp
  with False assms show ?thesis
    by (simp add: hex_value_def hex_digit_def word_le_nat_alt)
qed

lemma unat_hex_parts:
  fixes c :: "16 word"
  shows "unat c div 4096 < 16"
    and "unat c div 4096 * 4096 + unat c div 256 mod 16 * 256
          + unat c div 16 mod 16 * 16 + unat c mod 16 = unat c"
proof -
  have "unat c < 2 ^ 16" using unsigned_less [of c] by simp
  then show "unat c div 4096 < 16" by simp
  show "unat c div 4096 * 4096 + unat c div 256 mod 16 * 256
          + unat c div 16 mod 16 * 16 + unat c mod 16 = unat c"
    by (rule hex_parts)
qed

lemma hex4_UnicodeEscape:
  "hex4 (hex_digit (unat c div 4096)) (hex_digit (unat c div 256 mod 16))
        (hex_digit (unat c div 16 mod 16)) (hex_digit (unat c mod 16)) = Some c"
  using unat_hex_parts [of c] by (simp add: hex4_def hex_value_hex_digit)

lemma parse_chars_UnicodeEscape:
  "parse_chars (UnicodeEscape c @ t) = cons_fst c (parse_chars t)"
  by (simp add: UnicodeEscape_def hex4_UnicodeEscape)

lemma surrogate_plain:
  "is_high c \<or> is_low c \<Longrightarrow> c \<noteq> 0x22 \<and> c \<noteq> 0x5C \<and> \<not> c < 0x20"
  by (auto simp: is_high_def is_low_def word_le_nat_alt word_less_nat_alt)

lemma parse_chars_quote_unit:
  "parse_chars (quote_unit c @ t) = cons_fst c (parse_chars t)"
  by (simp add: quote_unit_def parse_chars_UnicodeEscape unescape_def)

lemma parse_chars_quote_units:
  "parse_chars (quote_units s @ 0x22 # t) = Some (s, t)"
proof (induction s rule: quote_units.induct)
  case 1
  show ?case by simp
next
  case (2 c)
  show ?case by (simp add: parse_chars_quote_unit cons_fst_def)
next
  case (3 c d ds)
  show ?case
  proof (cases "is_high c \<and> is_low d")
    case True
    then have plain: "c \<noteq> 0x22" "c \<noteq> 0x5C" "\<not> c < 0x20" "d \<noteq> 0x22" "d \<noteq> 0x5C" "\<not> d < 0x20"
      using surrogate_plain [of c] surrogate_plain [of d] by simp_all
    from True have eq: "quote_units (c # d # ds) = c # d # quote_units ds"
      by simp
    from True have IH: "parse_chars (quote_units ds @ 0x22 # t) = Some (ds, t)"
      by (rule 3(1))
    show ?thesis
      unfolding eq using plain by (simp add: IH cons_fst_def)
  next
    case False
    then have eq: "quote_units (c # d # ds) = quote_unit c @ quote_units (d # ds)"
      by auto
    from False have IH: "parse_chars (quote_units (d # ds) @ 0x22 # t) = Some (d # ds, t)"
      by (rule 3(2))
    have "parse_chars (quote_units (c # d # ds) @ 0x22 # t)
        = cons_fst c (parse_chars (quote_units (d # ds) @ 0x22 # t))"
      unfolding eq by (simp only: append_assoc parse_chars_quote_unit)
    then show ?thesis
      by (simp only: IH cons_fst_def option.map prod.case)
  qed
qed

lemma parse_chars_QuoteJSONString:
  "QuoteJSONString s @ t = 0x22 # quote_units s @ 0x22 # t"
  by (simp add: QuoteJSONString_def)


subsection \<open>Decimal digits\<close>

lemma digit_unit:
  assumes "m < 10"
  shows "is_digit (0x30 + of_nat m)" and "unat ((0x30 :: 16 word) + of_nat m) - 0x30 = m"
    and "(0x30 :: 16 word) + of_nat m \<noteq> 0x2D"
    and "0 < m \<Longrightarrow> (0x30 :: 16 word) + of_nat m \<noteq> 0x30"
proof -
  have u: "unat (0x30 + of_nat m :: 16 word) = 48 + m"
    using assms unat_code_unit [of 48 m] by simp
  from u assms show "is_digit (0x30 + of_nat m)"
    by (simp add: is_digit_def word_le_nat_alt)
  from u show "unat ((0x30 :: 16 word) + of_nat m) - 0x30 = m"
    by simp
  from u have "unat (0x30 + of_nat m :: 16 word) \<noteq> unat (0x2D :: 16 word)"
    by simp
  then show "(0x30 :: 16 word) + of_nat m \<noteq> 0x2D"
    by metis
  assume "0 < m"
  with u have "unat (0x30 + of_nat m :: 16 word) \<noteq> unat (0x30 :: 16 word)"
    by simp
  then show "(0x30 :: 16 word) + of_nat m \<noteq> 0x30"
    by metis
qed

lemma digits_are_digits: "c \<in> set (digits n) \<Longrightarrow> is_digit c"
proof (induction n arbitrary: c rule: digits.induct)
  case (1 n)
  show ?case
  proof (cases "n < 10")
    case True
    with "1.prems" show ?thesis
      by (simp add: digits.simps [of n] digit_unit(1))
  next
    case False
    with "1.prems" have "c \<in> set (digits (n div 10)) \<or> c = 0x30 + of_nat (n mod 10)"
      by (auto simp: digits.simps [of n])
    then show ?thesis
    proof
      assume "c \<in> set (digits (n div 10))"
      with False show ?thesis by (simp add: "1.IH")
    next
      assume "c = 0x30 + of_nat (n mod 10)"
      then show ?thesis by (simp add: digit_unit(1))
    qed
  qed
qed

lemma digits_nonempty: "digits n \<noteq> []"
  by (subst digits.simps) simp

lemma digits_value_snoc: "digits_value (ds @ [c]) = 10 * digits_value ds + (unat c - 0x30)"
  by (simp add: digits_value_def)

lemma digits_value_digits: "digits_value (digits n) = n"
proof (induction n rule: digits.induct)
  case (1 n)
  show ?case
  proof (cases "n < 10")
    case True
    then show ?thesis
      by (simp add: digits.simps [of n] digits_value_def digit_unit(2))
  next
    case False
    then have "digits_value (digits (n div 10)) = n div 10" by (rule "1.IH")
    with False show ?thesis
      by (simp add: digits.simps [of n] digits_value_snoc digit_unit(2))
  qed
qed

lemma digits_no_leading_zero: "0 < n \<Longrightarrow> hd (digits n) \<noteq> 0x30"
proof (induction n rule: digits.induct)
  case (1 n)
  show ?case
  proof (cases "n < 10")
    case True
    with "1.prems" digit_unit(4) [of n] show ?thesis
      by (simp add: digits.simps [of n])
  next
    case False
    then have "0 < n div 10" by simp
    with False have "hd (digits (n div 10)) \<noteq> 0x30" by (rule "1.IH")
    with False show ?thesis
      by (simp add: digits.simps [of n] digits_nonempty)
  qed
qed

lemma digits_single: "n < 10 \<Longrightarrow> length (digits n) = 1"
  by (simp add: digits.simps [of n])

lemma digits_leading: "1 < length (digits n) \<Longrightarrow> hd (digits n) \<noteq> 0x30"
proof -
  assume "1 < length (digits n)"
  then have "\<not> n < 10" using digits_single [of n] by auto
  then have "0 < n" by simp
  then show ?thesis by (rule digits_no_leading_zero)
qed

lemma digits_head: "\<exists>c cs. digits n = c # cs \<and> is_digit c"
proof -
  obtain c cs where "digits n = c # cs"
    using digits_nonempty [of n] by (cases "digits n") auto
  moreover from this have "is_digit c"
    using digits_are_digits [of c n] by simp
  ultimately show ?thesis by blast
qed

lemma takeWhile_digits:
  "\<not> is_digit d \<Longrightarrow> takeWhile is_digit (digits n @ d # t) = digits n"
  by (simp add: takeWhile_append2 digits_are_digits)

lemma dropWhile_digits:
  "\<not> is_digit d \<Longrightarrow> dropWhile is_digit (digits n @ d # t) = d # t"
  by (simp add: dropWhile_append2 digits_are_digits)

lemma is_digit_not_minus: "is_digit c \<Longrightarrow> c \<noteq> 0x2D"
  by (auto simp: is_digit_def)

lemma parse_number_digits:
  "parse_number (digits n @ 0x7D # t) = Some (of_nat n, 0x7D # t)"
proof -
  obtain c cs where d: "digits n = c # cs" and c: "is_digit c"
    using digits_head by blast
  from c have nm: "c \<noteq> 0x2D" by (rule is_digit_not_minus)
  have nd: "\<not> is_digit 0x7D" by (simp add: is_digit_def)
  have tw: "takeWhile is_digit (c # cs @ 0x7D # t) = digits n"
    using takeWhile_digits [OF nd, of n t] by (simp add: d)
  have dw: "dropWhile is_digit (c # cs @ 0x7D # t) = 0x7D # t"
    using dropWhile_digits [OF nd, of n t] by (simp add: d)
  have lead: "\<not> (1 < length (digits n) \<and> hd (digits n) = 0x30)"
    using digits_leading [of n] by blast
  have "parse_number (c # cs @ 0x7D # t) = Some (of_nat n, 0x7D # t)"
    unfolding parse_number_def
    using nm lead
    by (simp add: Let_def tw dw digits_nonempty parse_fraction_def parse_exponent_def
        digits_value_digits del: takeWhile.simps dropWhile.simps)
  then show ?thesis by (simp add: d)
qed

lemma parse_number_minus_digits:
  "0 < n \<Longrightarrow> parse_number (0x2D # digits n @ 0x7D # t) = Some (- of_nat n, 0x7D # t)"
proof -
  have nd: "\<not> is_digit 0x7D" by (simp add: is_digit_def)
  have lead: "\<not> (1 < length (digits n) \<and> hd (digits n) = 0x30)"
    using digits_leading [of n] by blast
  show ?thesis
    unfolding parse_number_def
    using lead
    by (simp add: Let_def takeWhile_digits [OF nd] dropWhile_digits [OF nd] digits_nonempty
        parse_fraction_def parse_exponent_def digits_value_digits)
qed

lemma parse_number_Number_toString:
  "parse_number (Number_toString n @ 0x7D # t) = Some (of_int n, 0x7D # t)"
proof (cases "n < 0")
  case True
  then have "0 < nat (- n)" by simp
  from parse_number_minus_digits [OF this, of t] True show ?thesis
    by (simp add: Number_toString_def)
next
  case False
  with parse_number_digits [of "nat n" t] show ?thesis
    by (simp add: Number_toString_def)
qed

lemma Number_toString_head:
  "\<exists>c cs. Number_toString n = c # cs \<and> (c = 0x2D \<or> is_digit c)"
  using digits_head [of "nat n"] by (auto simp: Number_toString_def)

subsection \<open>Values\<close>

lemma skip_ws_Cons: "\<not> is_json_ws c \<Longrightarrow> skip_ws (c # cs) = c # cs"
  by (simp add: skip_ws_def)

lemma skip_ws_Nil: "skip_ws [] = []"
  by (simp add: skip_ws_def)

lemma not_ws:
  "\<not> is_json_ws 0x22" "\<not> is_json_ws 0x2C" "\<not> is_json_ws 0x3A" "\<not> is_json_ws 0x5B"
  "\<not> is_json_ws 0x5D" "\<not> is_json_ws 0x7B" "\<not> is_json_ws 0x7D" "\<not> is_json_ws 0x2D"
  by (simp_all add: is_json_ws_def)

lemma is_digit_not_ws: "is_digit c \<Longrightarrow> \<not> is_json_ws c"
  by (auto simp: is_digit_def is_json_ws_def)

lemma is_digit_not_punct: "is_digit c \<Longrightarrow> c \<noteq> 0x7B \<and> c \<noteq> 0x5B \<and> c \<noteq> 0x22"
  by (auto simp: is_digit_def)

lemma parse_value_string:
  "parse_value (QuoteJSONString s @ t) = Some (JString s, t)"
  by (subst parse_value.simps)
     (simp add: QuoteJSONString_def skip_ws_Cons not_ws parse_chars_quote_units)

lemma Number_value_safe_integer:
  assumes "safe_integer n"
  shows "Number_value (of_int n) = JNumber (of_int n)"
proof -
  from assms have n: "\<bar>n\<bar> < 2 ^ 53" by (simp add: safe_integer_def)
  then have f: "fl (of_int n) = of_int n" by (rule fl_of_int)
  have "binade (of_int n) < 1024"
  proof (cases "1 \<le> \<bar>of_int n :: rat\<bar>")
    case True
    from n have "\<bar>of_int n :: rat\<bar> < of_int (2 ^ 53)"
      unfolding of_int_abs [symmetric] of_int_less_iff .
    then have "\<bar>of_int n :: rat\<bar> < 2 ^ 53" by simp
    from binade_range(2) [OF True this] show ?thesis by simp
  next
    case False
    define m where "m = ilog2 (nat (\<lceil>1 / \<bar>of_int n :: rat\<bar>\<rceil> - 1))"
    from False have "binade (of_int n) = - int (Suc m)"
      unfolding binade_def m_def by (simp only: if_False)
    then show ?thesis by simp
  qed
  then show ?thesis
    by (simp add: Number_value_def Let_def f)
qed

lemma parse_value_number:
  assumes "safe_integer n"
  shows "parse_value (Number_toString n @ 0x7D # t) = Some (JNumber (of_int n), 0x7D # t)"
proof -
  obtain c cs where d: "Number_toString n = c # cs" and c: "c = 0x2D \<or> is_digit c"
    using Number_toString_head by blast
  from c have ws: "\<not> is_json_ws c" and p: "c \<noteq> 0x7B" "c \<noteq> 0x5B" "c \<noteq> 0x22"
    using is_digit_not_ws [of c] is_digit_not_punct [of c] not_ws(8) by auto
  have "parse_number (c # cs @ 0x7D # t) = Some (of_int n, 0x7D # t)"
    using parse_number_Number_toString [of n t] by (simp add: d)
  with ws p c have "parse_value (c # cs @ 0x7D # t) = Some (Number_value (of_int n), 0x7D # t)"
    by (subst parse_value.simps) (auto simp: skip_ws_Cons)
  then show ?thesis
    by (simp add: d Number_value_safe_integer [OF assms])
qed

lemma parse_members_step:
  assumes "parse_value (V @ 0x2C # M) = Some (v, 0x2C # M)"
  shows "parse_members (QuoteJSONString k @ 0x3A # V @ 0x2C # M)
           = cons_fst (k, v) (parse_members M)"
  by (subst parse_members.simps)
     (simp add: QuoteJSONString_def skip_ws_Cons not_ws parse_chars_quote_units assms)

lemma parse_members_last:
  assumes "parse_value (V @ 0x7D # t) = Some (v, 0x7D # t)"
  shows "parse_members (QuoteJSONString k @ 0x3A # V @ 0x7D # t) = Some ([(k, v)], t)"
  by (subst parse_members.simps)
     (simp add: QuoteJSONString_def skip_ws_Cons not_ws parse_chars_quote_units assms)

lemma parse_value_object:
  "parse_value (0x7B # QuoteJSONString k @ X)
     = map_option (\<lambda>(ms, r). (JObject ms, r)) (parse_members (QuoteJSONString k @ X))"
  by (subst parse_value.simps) (simp add: QuoteJSONString_def skip_ws_Cons not_ws)

lemma stringify_item_append:
  "stringify_item it @ t =
     0x7B # QuoteJSONString (js ''id'') @ 0x3A # QuoteJSONString (QRHistoryItem.id' it)
      @ 0x2C # QuoteJSONString (js ''url'') @ 0x3A # QuoteJSONString (QRHistoryItem.url it)
      @ 0x2C # QuoteJSONString (js ''fgColor'') @ 0x3A # QuoteJSONString (QRHistoryItem.fgColor it)
      @ 0x2C # QuoteJSONString (js ''bgColor'') @ 0x3A # QuoteJSONString (QRHistoryItem.bgColor it)
      @ 0x2C # QuoteJSONString (js ''timestamp'') @ 0x3A # Number_toString (QRHistoryItem.timestamp it)
      @ 0x7D # t"
  by (simp add: stringify_item_def member_def)

lemma parse_value_item:
  assumes "safe_integer (timestamp it)"
  shows "parse_value (stringify_item it @ t) = Some (json_of_item it, t)"
  by (simp only: stringify_item_append parse_value_object parse_members_step parse_members_last
      parse_value_string parse_value_number [OF assms] cons_fst_def option.map prod.case
      json_of_item_def)

lemma stringify_item_head: "\<exists>r. stringify_item it = 0x7B # r"
  by (simp add: stringify_item_def)

lemma parse_elements_items:
  assumes "safe_integer (timestamp it)" and "list_all (\<lambda>it. safe_integer (timestamp it)) its"
  shows "parse_elements (join_comma (stringify_item it # map stringify_item its) @ 0x5D # t)
     = Some (json_of_item it # map json_of_item its, t)"
  using assms
proof (induction its arbitrary: it)
  case Nil
  then show ?case
    by (subst parse_elements.simps) (simp add: parse_value_item skip_ws_Cons not_ws)
next
  case (Cons x xs)
  from Cons.prems have x: "safe_integer (timestamp x)"
    and xs: "list_all (\<lambda>it. safe_integer (timestamp it)) xs"
    by simp_all
  have "parse_elements
          (stringify_item it @ 0x2C # join_comma (stringify_item x # map stringify_item xs) @ 0x5D # t)
      = cons_fst (json_of_item it)
          (parse_elements (join_comma (stringify_item x # map stringify_item xs) @ 0x5D # t))"
    using Cons.prems(1)
    by (subst parse_elements.simps) (simp add: parse_value_item skip_ws_Cons not_ws)
  then show ?case
    by (simp add: Cons.IH [OF x xs] cons_fst_def)
qed

lemma parse_value_history:
  assumes "list_all (\<lambda>it. safe_integer (timestamp it)) h"
  shows "parse_value (JSON_stringify h @ t) = Some (JArray (map json_of_item h), t)"
proof (cases h)
  case Nil
  show ?thesis
    unfolding Nil JSON_stringify_def
    by (subst parse_value.simps) (simp add: skip_ws_Cons not_ws)
next
  case (Cons it its)
  with assms have safe: "safe_integer (timestamp it)"
    "list_all (\<lambda>it. safe_integer (timestamp it)) its"
    by simp_all
  obtain r where r: "stringify_item it = 0x7B # r"
    using stringify_item_head by blast
  obtain u where u: "join_comma (stringify_item it # map stringify_item its) = 0x7B # u"
    by (cases its) (simp_all add: r)
  have "parse_value (0x5B # (0x7B # u) @ 0x5D # t)
      = map_option (\<lambda>(vs, r). (JArray vs, r)) (parse_elements ((0x7B # u) @ 0x5D # t))"
    by (subst parse_value.simps) (simp add: skip_ws_Cons not_ws)
  then have "parse_value (0x5B # join_comma (stringify_item it # map stringify_item its) @ 0x5D # t)
      = map_option (\<lambda>(vs, r). (JArray vs, r))
          (parse_elements (join_comma (stringify_item it # map stringify_item its) @ 0x5D # t))"
    by (simp only: u)
  then show ?thesis
    unfolding Cons JSON_stringify_def
    by (simp add: parse_elements_items [OF safe] del: join_comma.simps)
qed

lemma JSON_parse_stringify:
  assumes "list_all (\<lambda>it. safe_integer (timestamp it)) h"
  shows "JSON_parse (JSON_stringify h) = Inr (JArray (map json_of_item h))"
  using parse_value_history [OF assms, of "[]"] by (simp add: JSON_parse_def skip_ws_Nil)

lemma as_item_json_of_item:
  "safe_integer (timestamp it) \<Longrightarrow> as_item (json_of_item it) = Some it"
  by (simp add: as_item_def json_of_item_def string_of_def integer_of_def)

lemma as_history_json_of_items:
  "list_all (\<lambda>it. safe_integer (timestamp it)) h \<Longrightarrow>
   as_history (JArray (map json_of_item h)) = Some h"
  by (induction h) (simp_all add: as_history_def as_item_json_of_item)

subsection \<open>The values that are histories\<close>

text \<open>
  A value is read as a history only when it is the array of the entries of that history:
  the reading loses nothing.
\<close>

lemma string_of_Some: "string_of v = Some s \<Longrightarrow> v = JString s"
  by (cases v) (simp_all add: string_of_def)

lemma integer_of_Some:
  "integer_of v = Some t \<Longrightarrow> v = JNumber (of_int t) \<and> safe_integer t"
  by (cases v) (auto simp: integer_of_def split: if_splits)

lemma as_item_Some:
  assumes "as_item v = Some it"
  shows "v = json_of_item it" and "safe_integer (timestamp it)"
proof -
  from assms obtain ms where v: "v = JObject ms"
    by (cases v) (simp_all add: as_item_def)
  from assms v have keys: "map fst ms =
      [js ''id'', js ''url'', js ''fgColor'', js ''bgColor'', js ''timestamp'']"
    by (simp add: as_item_def split: if_splits)
  then obtain v0 v1 v2 v3 v4 where ms: "ms = [(js ''id'', v0), (js ''url'', v1),
      (js ''fgColor'', v2), (js ''bgColor'', v3), (js ''timestamp'', v4)]"
    by (auto simp: map_eq_Cons_conv)
  from assms obtain a b c d t where
    r: "string_of v0 = Some a" "string_of v1 = Some b" "string_of v2 = Some c"
       "string_of v3 = Some d" "integer_of v4 = Some t"
    and it: "it = \<lparr> id' = a, url = b, fgColor = c, bgColor = d, timestamp = t \<rparr>"
    unfolding v ms as_item_def
    by (auto split: option.splits if_splits)
  from r have "v0 = JString a" "v1 = JString b" "v2 = JString c" "v3 = JString d"
    "v4 = JNumber (of_int t)" "safe_integer t"
    by (auto dest: string_of_Some integer_of_Some)
  then show "v = json_of_item it" and "safe_integer (timestamp it)"
    by (simp_all add: v ms it json_of_item_def)
qed

lemma those_as_item:
  "those (map as_item vs) = Some h \<Longrightarrow>
   vs = map json_of_item h \<and> list_all (\<lambda>it. safe_integer (timestamp it)) h"
proof (induction vs arbitrary: h)
  case Nil
  then show ?case by simp
next
  case (Cons v vs)
  from Cons.prems obtain it h' where
    v: "as_item v = Some it" and h': "those (map as_item vs) = Some h'" and h: "h = it # h'"
    by (auto split: option.splits)
  from as_item_Some [OF v] Cons.IH [OF h'] h show ?case by simp
qed

lemma as_history_Some:
  assumes "as_history v = Some h"
  shows "v = JArray (map json_of_item h)"
    and "list_all (\<lambda>it. safe_integer (timestamp it)) h"
proof -
  from assms obtain vs where v: "v = JArray vs"
    by (cases v) (simp_all add: as_history_def)
  with assms have "those (map as_item vs) = Some h"
    by (simp add: as_history_def)
  from those_as_item [OF this] v
  show "v = JArray (map json_of_item h)"
    and "list_all (\<lambda>it. safe_integer (timestamp it)) h"
    by simp_all
qed

section \<open>Facts about the effects\<close>

lemma JSON_stringify_nonempty: "JSON_stringify h \<noteq> []"
  by (simp add: JSON_stringify_def)

lemma valid_history_safe:
  "valid_history S \<Longrightarrow> list_all (\<lambda>it. safe_integer (timestamp it)) S"
  by (auto simp: valid_history_def valid_entry_def safe_integer_def list_all_iff)

lemma JSON_roundtrip:
  assumes "list_all (\<lambda>it. safe_integer (timestamp it)) h"
  shows "JSON_parse (JSON_stringify h) = Inr (JArray (map json_of_item h))"
    and "as_history (JArray (map json_of_item h)) = Some h"
  using assms by (rule JSON_parse_stringify, rule as_history_json_of_items)

lemma load_parsed:
  assumes "localStorage w (js ''qr_history'') = Some saved" and "saved \<noteq> []"
    and "JSON_parse saved = Inr v" and "as_history v = Some h"
  shows "useEffect_load w = Entries (w\<lparr> app := (app w)\<lparr> history := h \<rparr> \<rparr>)"
  using assms by (simp add: useEffect_load_def)

lemma load_other:
  assumes "localStorage w (js ''qr_history'') = Some saved" and "saved \<noteq> []"
    and "JSON_parse saved = Inr v" and "as_history v = None"
  shows "useEffect_load w = Other w v"
  using assms by (simp add: useEffect_load_def)

lemma load_installs:
  assumes "localStorage w (js ''qr_history'') = Some saved" and "saved \<noteq> []"
    and "JSON_parse saved = Inr v"
  shows "history_cell (useEffect_load w) = v"
proof (cases "as_history v")
  case None
  with assms have "useEffect_load w = Other w v" by (rule load_other)
  then show ?thesis by (simp add: history_cell_def)
next
  case (Some h)
  with assms have "useEffect_load w = Entries (w\<lparr> app := (app w)\<lparr> history := h \<rparr> \<rparr>)"
    by (rule load_parsed)
  with as_history_Some(1) [OF Some] show ?thesis by (simp add: history_cell_def)
qed

lemma mount_saved:
  assumes "list_all (\<lambda>it. safe_integer (timestamp it)) S"
  shows "map_option (\<lambda>w. history (app w))
           (mount (useEffect_save (w\<lparr> app := (app w)\<lparr> history := S \<rparr> \<rparr>))) = Some S"
proof -
  define w' where "w' = (useEffect_save (w\<lparr> app := (app w)\<lparr> history := S \<rparr> \<rparr>))\<lparr> app := initial \<rparr>"
  have "localStorage w' (js ''qr_history'') = Some (JSON_stringify S)"
    by (simp add: w'_def useEffect_save_def)
  then have L: "useEffect_load w' = Entries (w'\<lparr> app := (app w')\<lparr> history := S \<rparr> \<rparr>)"
    using JSON_stringify_nonempty JSON_roundtrip [OF assms] by (rule load_parsed)
  show ?thesis
    unfolding mount_def Let_def w'_def [symmetric] L
    by (simp add: useEffect_save_def)
qed

lemma JSON_parse_broken: "JSON_parse (js ''{broken'') = Inl SyntaxError"
  by (simp add: JSON_parse_def parse_value.simps parse_members.simps skip_ws_def is_json_ws_def js_def)

lemma parse_blank_blob:
  "JSON_parse blank_blob =
     Inr (JArray [JObject [(js ''id'', JString (js ''a'')), (js ''url'', JString (js ''  x '')),
        (js ''fgColor'', JString (js ''#000000'')), (js ''bgColor'', JString (js ''#ffffff'')),
        (js ''timestamp'', JNumber 1)]])"
  by code_simp

lemma parse_reordered_blob:
  "JSON_parse reordered_blob =
     Inr (JArray [JObject [(js ''url'', JString (js ''https://a.example'')),
        (js ''id'', JString (js ''a'')),
        (js ''fgColor'', JString (js ''#000000'')), (js ''bgColor'', JString (js ''#ffffff'')),
        (js ''timestamp'', JNumber 1)]])"
  by code_simp

lemma parse_null_blob: "JSON_parse null_blob = Inr JNull"
  by code_simp

lemma JSON_parse_rounds:
  "JSON_parse (js ''0.1'') = Inr (JNumber (3602879701896397 / 36028797018963968))"
  by code_simp

lemma eleven_safe: "list_all (\<lambda>it. safe_integer (timestamp it)) (replicate 11 blank_entry)"
  by (simp add: list_all_iff blank_entry_def safe_integer_def)

lemma load_eleven:
  "useEffect_load (stored eleven_blob)
     = Entries ((stored eleven_blob)\<lparr> app := (app (stored eleven_blob))
               \<lparr> history := replicate 11 blank_entry \<rparr> \<rparr>)"
proof -
  have "localStorage (stored eleven_blob) (js ''qr_history'') = Some eleven_blob"
    by (simp add: stored_def)
  moreover have "eleven_blob \<noteq> []"
    by (simp add: eleven_blob_def JSON_stringify_nonempty)
  moreover have "JSON_parse eleven_blob = Inr (JArray (map json_of_item (replicate 11 blank_entry)))"
    unfolding eleven_blob_def using eleven_safe by (rule JSON_roundtrip)
  ultimately show ?thesis
    using JSON_roundtrip(2) [OF eleven_safe] by (rule load_parsed)
qed

lemma load_blank_blob:
  "useEffect_load (stored blank_blob)
     = Entries ((stored blank_blob)\<lparr> app := (app (stored blank_blob))
               \<lparr> history := [\<lparr> id' = js ''a'', url = js ''  x '', fgColor = js ''#000000'',
                   bgColor = js ''#ffffff'', timestamp = 1 \<rparr>] \<rparr> \<rparr>)"
proof -
  have "localStorage (stored blank_blob) (js ''qr_history'') = Some blank_blob"
    by (simp add: stored_def)
  moreover have "blank_blob \<noteq> []"
    by (simp add: blank_blob_def js_def)
  moreover note parse_blank_blob
  moreover have "as_history (JArray [JObject [(js ''id'', JString (js ''a'')),
        (js ''url'', JString (js ''  x '')),
        (js ''fgColor'', JString (js ''#000000'')), (js ''bgColor'', JString (js ''#ffffff'')),
        (js ''timestamp'', JNumber 1)]])
      = Some [\<lparr> id' = js ''a'', url = js ''  x '', fgColor = js ''#000000'',
                 bgColor = js ''#ffffff'', timestamp = 1 \<rparr>]"
    by (simp add: as_history_def as_item_def string_of_def integer_of_def safe_integer_def js_def)
  ultimately show ?thesis
    by (rule load_parsed)
qed

lemma load_reordered_blob:
  "useEffect_load (stored reordered_blob)
     = Other (stored reordered_blob)
         (JArray [JObject [(js ''url'', JString (js ''https://a.example'')),
            (js ''id'', JString (js ''a'')),
            (js ''fgColor'', JString (js ''#000000'')), (js ''bgColor'', JString (js ''#ffffff'')),
            (js ''timestamp'', JNumber 1)]])"
proof -
  have "localStorage (stored reordered_blob) (js ''qr_history'') = Some reordered_blob"
    by (simp add: stored_def)
  moreover have "reordered_blob \<noteq> []"
    by (simp add: reordered_blob_def js_def)
  moreover note parse_reordered_blob
  moreover have "as_history (JArray [JObject [(js ''url'', JString (js ''https://a.example'')),
            (js ''id'', JString (js ''a'')),
            (js ''fgColor'', JString (js ''#000000'')), (js ''bgColor'', JString (js ''#ffffff'')),
            (js ''timestamp'', JNumber 1)]]) = None"
    by (simp add: as_history_def as_item_def js_def)
  ultimately show ?thesis
    by (rule load_other)
qed

lemma load_null_blob: "useEffect_load (stored null_blob) = Other (stored null_blob) JNull"
proof -
  have "localStorage (stored null_blob) (js ''qr_history'') = Some null_blob"
    by (simp add: stored_def)
  moreover have "null_blob \<noteq> []"
    by (simp add: null_blob_def js_def)
  moreover note parse_null_blob
  moreover have "as_history JNull = None"
    by (simp add: as_history_def)
  ultimately show ?thesis
    by (rule load_other)
qed

subsection \<open>The length tests of the parser never fail\<close>

text \<open>
  Every parser returns a rest that is shorter than its input.  Hence the two tests
  \<open>length ds < length s\<close> in \<open>parse_elements\<close> and \<open>parse_members\<close> hold whenever
  they are reached, and both functions satisfy their equations without the tests.
\<close>

lemma parse_fraction_length: "parse_fraction s = Some (f, r) \<Longrightarrow> length r \<le> length s"
  by (auto simp: parse_fraction_def Let_def length_dropWhile_le le_SucI
      split: list.splits if_splits)

lemma parse_exponent_length: "parse_exponent s = Some (e, r) \<Longrightarrow> length r \<le> length s"
proof -
  have tl: "\<And>xs :: jsstring. length (dropWhile is_digit (tl xs)) \<le> length xs"
    by (metis diff_le_self le_trans length_dropWhile_le length_tl)
  assume "parse_exponent s = Some (e, r)"
  then show ?thesis
    using tl
    by (auto simp: parse_exponent_def Let_def length_dropWhile_le le_SucI
        split: list.splits if_splits)
qed

lemma parse_number_shorter:
  assumes "parse_number s = Some (q, r)"
  shows "length r < length s"
proof -
  define s1 where "s1 = (if (case s of [] \<Rightarrow> False | c # _ \<Rightarrow> c = 0x2D) then tl s else s)"
  have s1: "length s1 \<le> length s" by (simp add: s1_def)
  from assms have ne: "takeWhile is_digit s1 \<noteq> []"
    by (auto simp: parse_number_def Let_def s1_def split: if_splits)
  from assms obtain f s2 e where
    f: "parse_fraction (dropWhile is_digit s1) = Some (f, s2)" and
    e: "parse_exponent s2 = Some (e, r)"
    by (auto simp: parse_number_def Let_def s1_def split: if_splits option.splits)
  have "length (takeWhile is_digit s1) + length (dropWhile is_digit s1) = length s1"
    by (metis length_append takeWhile_dropWhile_id)
  with ne have "length (dropWhile is_digit s1) < length s1"
    by (cases "takeWhile is_digit s1") auto
  with parse_fraction_length [OF f] parse_exponent_length [OF e] s1 show ?thesis
    by simp
qed

lemma parse_shorter:
  "(\<forall>v r. parse_value s = Some (v, r) \<longrightarrow> length r < length s)"
  "(\<forall>vs r. parse_elements s = Some (vs, r) \<longrightarrow> length r < length s)"
  "(\<forall>ms r. parse_members s = Some (ms, r) \<longrightarrow> length r < length s)"
proof (induction s and s and s rule: parse_value_parse_elements_parse_members.induct)
  case (1 s)
  show ?case
  proof (intro allI impI)
    fix v r assume a: "parse_value s = Some (v, r)"
    then obtain c cs where sk: "skip_ws s = c # cs"
      by (subst (asm) parse_value.simps) (auto split: list.splits)
    have len: "Suc (length cs) \<le> length s"
      using skip_ws_length [of s] sk by simp
    show "length r < length s"
    proof (cases "c = 0x7B")
      case True
      with a sk obtain d ds where sk2: "skip_ws cs = d # ds"
        by (subst (asm) parse_value.simps) (auto split: list.splits)
      have len2: "Suc (length ds) \<le> length cs"
        using skip_ws_length [of cs] sk2 by simp
      show ?thesis
      proof (cases "d = 0x7D")
        case True
        with a sk sk2 \<open>c = 0x7B\<close> have "r = ds"
          by (subst (asm) parse_value.simps) simp
        with len len2 show ?thesis by simp
      next
        case False
        with a sk sk2 \<open>c = 0x7B\<close> obtain ms where "parse_members (d # ds) = Some (ms, r)"
          by (subst (asm) parse_value.simps) auto
        with "1.IH"(1) [OF sk True sk2 False] have "length r < length (d # ds)" by blast
        with len len2 show ?thesis by simp
      qed
    next
      case n7: False
      show ?thesis
      proof (cases "c = 0x5B")
        case True
        with a sk n7 obtain d ds where sk2: "skip_ws cs = d # ds"
          by (subst (asm) parse_value.simps) (auto split: list.splits)
        have len2: "Suc (length ds) \<le> length cs"
          using skip_ws_length [of cs] sk2 by simp
        show ?thesis
        proof (cases "d = 0x5D")
          case d: True
          with a sk sk2 n7 True have "r = ds"
            by (subst (asm) parse_value.simps) simp
          with len len2 show ?thesis by simp
        next
          case d: False
          with a sk sk2 n7 True obtain vs where "parse_elements (d # ds) = Some (vs, r)"
            by (subst (asm) parse_value.simps) auto
          with "1.IH"(2) [OF sk n7 True sk2 d] have "length r < length (d # ds)" by blast
          with len len2 show ?thesis by simp
        qed
      next
        case n5: False
        from a sk n7 n5 have
          "(\<exists>str. parse_chars cs = Some (str, r)) \<or> (\<exists>q. parse_number (c # cs) = Some (q, r))
           \<or> (r = drop 4 (c # cs) \<and> 4 \<le> length (c # cs))
           \<or> (r = drop 5 (c # cs) \<and> 5 \<le> length (c # cs))"
          by (subst (asm) parse_value.simps)
             (auto simp: js_def split: if_splits dest!: arg_cong [where f = length])
        then show ?thesis
          using len parse_chars_shorter [of cs _ r] parse_number_shorter [of "c # cs" _ r]
          by auto
      qed
    qed
  qed
next
  case (2 s)
  show ?case
  proof (intro allI impI)
    fix vs r assume a: "parse_elements s = Some (vs, r)"
    then obtain v r1 where pv: "parse_value s = Some (v, r1)"
      by (subst (asm) parse_elements.simps) (auto split: option.splits)
    with "2.IH"(1) have l1: "length r1 < length s" by blast
    from a pv obtain d ds where sk: "skip_ws r1 = d # ds"
      by (subst (asm) parse_elements.simps) (auto split: list.splits)
    have l2: "Suc (length ds) \<le> length r1"
      using skip_ws_length [of r1] sk by simp
    show "length r < length s"
    proof (cases "d = 0x5D")
      case True
      with a pv sk have "r = ds"
        by (subst (asm) parse_elements.simps) simp
      with l1 l2 show ?thesis by simp
    next
      case False
      with a pv sk have g: "d = 0x2C \<and> length ds < length s"
        and "\<exists>ws. parse_elements ds = Some (ws, r)"
        by (subst (asm) parse_elements.simps, auto simp: cons_fst_def split: if_splits)+
      then obtain ws where "parse_elements ds = Some (ws, r)" by blast
      with "2.IH"(2) [OF _ _ sk False g] pv have "length r < length ds"
        by (metis prod.collapse fst_conv snd_conv)
      with l1 l2 show ?thesis by simp
    qed
  qed
next
  case (3 s)
  show ?case
  proof (intro allI impI)
    fix ms r assume a: "parse_members s = Some (ms, r)"
    then obtain q qs where sk: "skip_ws s = q # qs"
      by (subst (asm) parse_members.simps) (auto split: list.splits)
    from a sk have q: "\<not> q \<noteq> 0x22"
      by (subst (asm) parse_members.simps) (auto split: if_splits)
    from a sk q obtain k r0 where pc: "parse_chars qs = Some (k, r0)"
      by (subst (asm) parse_members.simps) (auto split: option.splits)
    from a sk q pc obtain col r1 where sk1: "skip_ws r0 = col # r1"
      by (subst (asm) parse_members.simps) (auto split: list.splits)
    from a sk q pc sk1 have col: "\<not> col \<noteq> 0x3A"
      by (subst (asm) parse_members.simps) (auto split: if_splits)
    from a sk q pc sk1 col obtain v r2 where pv: "parse_value r1 = Some (v, r2)"
      by (subst (asm) parse_members.simps) (auto split: option.splits)
    from a sk q pc sk1 col pv obtain d ds where sk2: "skip_ws r2 = d # ds"
      by (subst (asm) parse_members.simps) (auto split: list.splits)
    have l0: "Suc (length qs) \<le> length s" using skip_ws_length [of s] sk by simp
    have l1: "length r0 < length qs" using pc by (rule parse_chars_shorter)
    have l2: "Suc (length r1) \<le> length r0" using skip_ws_length [of r0] sk1 by simp
    have l3: "length r2 < length r1"
      using "3.IH"(1) [OF sk q _ _ sk1 col] pc pv by (metis prod.collapse fst_conv snd_conv)
    have l4: "Suc (length ds) \<le> length r2" using skip_ws_length [of r2] sk2 by simp
    show "length r < length s"
    proof (cases "d = 0x7D")
      case True
      with a sk q pc sk1 col pv sk2 have "r = ds"
        by (subst (asm) parse_members.simps) simp
      with l0 l1 l2 l3 l4 show ?thesis by simp
    next
      case False
      with a sk q pc sk1 col pv sk2 have g: "d = 0x2C \<and> length ds < length s"
        and "\<exists>ws. parse_members ds = Some (ws, r)"
        by (subst (asm) parse_members.simps, auto simp: cons_fst_def split: if_splits)+
      then obtain ws where pm: "parse_members ds = Some (ws, r)" by blast
      have "length r < length ds"
        using "3.IH"(2) [OF sk q _ _ sk1 col _ _ sk2 False g] pc pv pm
        by (metis prod.collapse fst_conv snd_conv)
      with l0 l1 l2 l3 l4 show ?thesis by simp
    qed
  qed
qed

lemma parse_value_shorter: "parse_value s = Some (v, r) \<Longrightarrow> length r < length s"
  using parse_shorter(1) by blast

lemma parse_elements_unguarded:
  "parse_elements s =
     (case parse_value s of
        None \<Rightarrow> None
      | Some (v, r) \<Rightarrow>
          (case skip_ws r of
             [] \<Rightarrow> None
           | d # ds \<Rightarrow>
               if d = 0x5D then Some ([v], ds)
               else if d = 0x2C then cons_fst v (parse_elements ds)
               else None))"
proof (cases "parse_value s")
  case None
  then show ?thesis by (subst parse_elements.simps) simp
next
  case (Some a)
  obtain v r where a: "a = (v, r)" by (cases a)
  from Some a have l: "length r < length s" by (simp add: parse_value_shorter)
  show ?thesis
  proof (cases "skip_ws r")
    case Nil
    with Some a show ?thesis by (subst parse_elements.simps) simp
  next
    case (Cons d ds)
    with skip_ws_length [of r] l have "length ds < length s" by simp
    with Some a Cons show ?thesis by (subst parse_elements.simps) simp
  qed
qed

lemma parse_members_unguarded:
  "parse_members s =
     (case skip_ws s of
        [] \<Rightarrow> None
      | q # qs \<Rightarrow>
          if q \<noteq> 0x22 then None
          else
            (case parse_chars qs of
               None \<Rightarrow> None
             | Some (k, r) \<Rightarrow>
                 (case skip_ws r of
                    [] \<Rightarrow> None
                  | col # r1 \<Rightarrow>
                      if col \<noteq> 0x3A then None
                      else
                        (case parse_value r1 of
                           None \<Rightarrow> None
                         | Some (v, r2) \<Rightarrow>
                             (case skip_ws r2 of
                                [] \<Rightarrow> None
                              | d # ds \<Rightarrow>
                                  if d = 0x7D then Some ([(k, v)], ds)
                                  else if d = 0x2C then cons_fst (k, v) (parse_members ds)
                                  else None)))))"
proof -
  have "length ds < length s"
    if "skip_ws s = q # qs" "parse_chars qs = Some (k, r)" "skip_ws r = col # r1"
      "parse_value r1 = Some (v, r2)" "skip_ws r2 = d # ds"
    for q qs k r col r1 v r2 d ds
    using that skip_ws_length [of s] skip_ws_length [of r] skip_ws_length [of r2]
      parse_chars_shorter [of qs k r] parse_value_shorter [of r1 v r2]
    by simp
  then show ?thesis
    by (subst parse_members.simps)
       (auto split: list.splits option.splits)
qed

section \<open>The claims about the history store\<close>

text \<open>
  Claim C1.  Starting from an empty history, a sequence of add calls whose trimmed
  addresses are pairwise distinct and non-blank leaves a history of length
  \<open>min (number of calls) 10\<close>; the entry at index \<open>i\<close> is the one created by the
  \<open>i+1\<close>-th most recent call; and the history is exactly the entries of the last ten
  calls, newest first, so the entries that are gone are the oldest ones.
\<close>

theorem C1_adds_most_recent_first:
  assumes "history st = []"
    and "distinct (map (\<lambda>c. trim (address c)) cs)"
    and "\<forall>c \<in> set cs. trim (address c) \<noteq> []"
  shows "length (history (adds cs st)) = min (length cs) 10
       \<and> (\<forall>i < min (length cs) 10.
            history (adds cs st) ! i = entry_of (cs ! (length cs - 1 - i)))
       \<and> history (adds cs st) = rev (map entry_of (drop (length cs - 10) cs))"
proof -
  have H: "history (adds cs st) = take 10 (rev (map entry_of cs))"
    using assms by (rule adds_distinct_addresses)
  have "length (history (adds cs st)) = min (length cs) 10"
    by (simp add: H)
  moreover have "\<forall>i < min (length cs) 10.
      history (adds cs st) ! i = entry_of (cs ! (length cs - 1 - i))"
  proof (intro allI impI)
    fix i assume i: "i < min (length cs) 10"
    then have "length cs - 1 - i < length cs" by arith
    then have "map entry_of cs ! (length cs - 1 - i) = entry_of (cs ! (length cs - 1 - i))"
      by (rule nth_map)
    with i show "history (adds cs st) ! i = entry_of (cs ! (length cs - 1 - i))"
      by (simp add: H rev_nth)
  qed
  moreover have "history (adds cs st) = rev (map entry_of (drop (length cs - 10) cs))"
    by (simp add: H take_rev drop_map)
  ultimately show ?thesis by blast
qed

theorem C1_adds_most_recent_first_witness:
  "history initial = []
   \<and> distinct (map (\<lambda>c. trim (address c)) eleven)
   \<and> list_all (\<lambda>c. trim (address c) \<noteq> []) eleven
   \<and> length eleven = 11
   \<and> length (history (adds eleven initial)) = 10
   \<and> history (adds eleven initial) ! 0 = entry_of (eleven ! 10)
   \<and> history (adds eleven initial) ! 9 = entry_of (eleven ! 1)
   \<and> entry_of (eleven ! 0) \<notin> set (history (adds eleven initial))"
proof -
  have e: "eleven = [call ''a'' ''id'' 1, call ''aa'' ''id'' 2, call ''aaa'' ''id'' 3,
      call ''aaaa'' ''id'' 4, call ''aaaaa'' ''id'' 5, call ''aaaaaa'' ''id'' 6,
      call ''aaaaaaa'' ''id'' 7, call ''aaaaaaaa'' ''id'' 8, call ''aaaaaaaaa'' ''id'' 9,
      call ''aaaaaaaaaa'' ''id'' 10, call ''aaaaaaaaaaa'' ''id'' 11]"
    by (simp add: eleven_def upt_conv_Cons)
  have h0: "history initial = []"
    by (simp add: initial_def)
  have h1: "distinct (map (\<lambda>c. trim (address c)) eleven)"
    by (simp add: e call_def js_def trim_def isWhiteSpace_def)
  have h2: "\<forall>c \<in> set eleven. trim (address c) \<noteq> []"
    by (simp add: e call_def js_def trim_def isWhiteSpace_def)
  have len: "length eleven = 11"
    by (simp add: e)
  note C = C1_adds_most_recent_first [OF h0 h1 h2]
  have a: "length (history (adds eleven initial)) = 10"
    using C [THEN conjunct1] by (simp add: len)
  have nth: "\<forall>i < 10. history (adds eleven initial) ! i = entry_of (eleven ! (10 - i))"
    using C [THEN conjunct2, THEN conjunct1] by (simp add: len)
  have b: "history (adds eleven initial) ! 0 = entry_of (eleven ! 10)"
    using nth [THEN spec, of 0] by simp
  have c: "history (adds eleven initial) ! 9 = entry_of (eleven ! 1)"
    using nth [THEN spec, of 9] by simp
  have d: "entry_of (eleven ! 0) \<notin> set (history (adds eleven initial))"
    using C [THEN conjunct2, THEN conjunct2]
    by (simp add: len e entry_of_def call_def js_def trim_def isWhiteSpace_def)
  from h2 have h2': "list_all (\<lambda>c. trim (address c) \<noteq> []) eleven"
    by (simp only: list_all_iff)
  from h0 h1 h2' len a b c d show ?thesis by blast
qed

text \<open>
  Claim C2.  When the head entry's address equals the trimmed address being added,
  \<open>addToHistory\<close> returns the state it was given: nothing is prepended, nothing is
  removed, and the head keeps its timestamp.  Two calls in a row with the same non-blank
  address, from an empty history, leave one entry.
\<close>

theorem C2_head_match_is_noop:
  "(history st \<noteq> [] \<and> QRHistoryItem.url (hd (history st)) = trim (App.url st)
      \<longrightarrow> addToHistory e st = st)
   \<and> (history st = [] \<and> trim (App.url st) \<noteq> []
      \<longrightarrow> length (history (addToHistory e' (addToHistory e st))) = 1
        \<and> history (addToHistory e' (addToHistory e st)) = history (addToHistory e st))"
proof (intro conjI impI)
  assume "history st \<noteq> [] \<and> QRHistoryItem.url (hd (history st)) = trim (App.url st)"
  then show "addToHistory e st = st"
    by (cases "history st") (simp_all add: addToHistory_def Let_def)
next
  assume a: "history st = [] \<and> trim (App.url st) \<noteq> []"
  then have "App.url st \<noteq> []" by (auto dest: trim_nonempty)
  with a show "length (history (addToHistory e' (addToHistory e st))) = 1"
    by (simp add: addToHistory_def Let_def)
  from a \<open>App.url st \<noteq> []\<close>
  show "history (addToHistory e' (addToHistory e st)) = history (addToHistory e st)"
    by (simp add: addToHistory_def Let_def)
qed

theorem C2_head_match_is_noop_witness:
  "history initial = [] \<and> trim (App.url initial) \<noteq> []
   \<and> history (addToHistory env1 initial) \<noteq> []
   \<and> QRHistoryItem.url (hd (history (addToHistory env1 initial)))
       = trim (App.url (addToHistory env1 initial))
   \<and> addToHistory env2 (addToHistory env1 initial) = addToHistory env1 initial
   \<and> length (history (addToHistory env2 (addToHistory env1 initial))) = 1
   \<and> QRHistoryItem.timestamp (hd (history (addToHistory env2 (addToHistory env1 initial))))
       = 1700000000000"
proof -
  have h0: "history initial = [] \<and> trim (App.url initial) \<noteq> []"
    by (simp add: initial_def js_def trim_def isWhiteSpace_def)
  have h1: "history (addToHistory env1 initial) \<noteq> []
     \<and> QRHistoryItem.url (hd (history (addToHistory env1 initial)))
       = trim (App.url (addToHistory env1 initial))"
    by (simp add: addToHistory_def Let_def initial_def js_def trim_def isWhiteSpace_def)
  have t: "QRHistoryItem.timestamp (hd (history (addToHistory env1 initial))) = 1700000000000"
    by (simp add: addToHistory_def Let_def initial_def js_def trim_def isWhiteSpace_def env1_def)
  from C2_head_match_is_noop [of "addToHistory env1 initial" env2 env2] h1
  have a: "addToHistory env2 (addToHistory env1 initial) = addToHistory env1 initial"
    by blast
  from C2_head_match_is_noop [of initial env1 env2] h0
  have b: "length (history (addToHistory env2 (addToHistory env1 initial))) = 1"
    by blast
  from h0 h1 a b t show ?thesis by simp
qed

text \<open>
  Claim C3.  With an empty address, or one made of white space only, \<open>addToHistory\<close>
  returns the state it was given; in particular for the addresses \<open>""\<close> and
  \<open>"   "\<close>.  The function has no failing branch.
\<close>

theorem C3_blank_address_is_noop:
  "(App.url st = [] \<or> (\<forall>c \<in> set (App.url st). isWhiteSpace c) \<longrightarrow> addToHistory e st = st)
   \<and> addToHistory e (st\<lparr> url := [] \<rparr>) = st\<lparr> url := [] \<rparr>
   \<and> addToHistory e (st\<lparr> url := (js ''   '') \<rparr>) = st\<lparr> url := (js ''   '') \<rparr>"
proof (intro conjI impI)
  assume "App.url st = [] \<or> (\<forall>c \<in> set (App.url st). isWhiteSpace c)"
  then have "App.url st = [] \<or> trim (App.url st) = []"
    by (auto simp: trim_eq_Nil_iff)
  then show "addToHistory e st = st"
    by (auto simp: addToHistory_def)
next
  show "addToHistory e (st\<lparr> url := [] \<rparr>) = st\<lparr> url := [] \<rparr>"
    by (simp add: addToHistory_def js_def)
next
  show "addToHistory e (st\<lparr> url := (js ''   '') \<rparr>) = st\<lparr> url := (js ''   '') \<rparr>"
    by (simp add: addToHistory_def js_def trim_def isWhiteSpace_def)
qed

theorem C3_blank_address_is_noop_witness:
  "list_all isWhiteSpace (App.url tabs)
   \<and> length (history tabs) = 1
   \<and> addToHistory env2 tabs = tabs"
proof -
  have h: "\<forall>c \<in> set (App.url tabs). isWhiteSpace c"
    by (simp add: tabs_def isWhiteSpace_def)
  have l: "length (history tabs) = 1"
    by (simp add: tabs_def addToHistory_def Let_def initial_def js_def trim_def isWhiteSpace_def)
  from C3_blank_address_is_noop [of tabs env2] h have "addToHistory env2 tabs = tabs"
    by blast
  moreover from h have "list_all isWhiteSpace (App.url tabs)"
    by (simp only: list_all_iff)
  ultimately show ?thesis using l by blast
qed

text \<open>
  Claim C8, as the code has it.  The identifier of an entry is the string that the random
  generator produced for that call; nothing compares it with the identifiers already
  stored.  Starting from an empty history, if the generated identifiers of the calls are
  pairwise distinct then so are the identifiers in the history.
\<close>

theorem C8_ids_distinct_when_generated_distinct:
  assumes "history st = []"
    and "distinct (map (\<lambda>c. Math_random_id (env c)) cs)"
  shows "distinct (map id' (history (adds cs st)))"
  using assms(2)
proof (induction cs rule: rev_induct)
  case Nil
  show ?case using assms(1) by simp
next
  case (snoc c cs)
  then have IH: "distinct (map id' (history (adds cs st)))"
    by simp
  have "Math_random_id (env c) \<notin> set (map (\<lambda>c. Math_random_id (env c)) cs)"
    using snoc.prems by simp
  with adds_ids [OF assms(1), of cs]
  have fresh: "Math_random_id (env c) \<notin> set (map id' (history (adds cs st)))"
    by blast
  have "distinct (map id' (entry_of c # history (adds cs st)))"
    using IH fresh by (simp add: entry_of_def)
  then have "distinct (take 10 (map id' (entry_of c # history (adds cs st))))"
    by (rule distinct_take)
  then have "distinct (map id' (take 10 (entry_of c # history (adds cs st))))"
    by (simp only: take_map)
  with IH add_cases [of c "adds cs st"] show ?case
    by (auto simp: adds_snoc)
qed

theorem C8_ids_distinct_when_generated_distinct_witness:
  "history initial = []
   \<and> distinct (map (\<lambda>c. Math_random_id (env c)) distinct_id_calls)
   \<and> length (history (adds distinct_id_calls initial)) = 2
   \<and> distinct (map id' (history (adds distinct_id_calls initial)))"
proof -
  have h0: "history initial = []" by (simp add: initial_def)
  have h1: "distinct (map (\<lambda>c. Math_random_id (env c)) distinct_id_calls)"
    by (simp add: distinct_id_calls_def call_def js_def)
  have l: "length (history (adds distinct_id_calls initial)) = 2"
    by (simp add: distinct_id_calls_def call_def initial_def add_def addToHistory_def Let_def
      js_def trim_def isWhiteSpace_def)
  from C8_ids_distinct_when_generated_distinct [OF h0 h1] h0 h1 l show ?thesis by blast
qed

text \<open>
  Two calls with different addresses for which the generator produced the same string
  leave two entries with the same identifier.
\<close>

theorem C8_counterexample:
  "\<not> distinct (map id' (history (adds same_id_calls initial)))"
  by (simp add: same_id_calls_def call_def initial_def add_def addToHistory_def Let_def
      js_def trim_def isWhiteSpace_def)

text \<open>
  Claim C10.  The head is compared with the trimmed new address.  For inputs \<open>a\<close> and
  \<open>b\<close> with the same non-empty trimmed address, \<open>add b\<close> after \<open>add a\<close> changes
  nothing more: the history is the one after \<open>add a\<close>, which holds a single new entry
  whenever \<open>add a\<close> added one, also when \<open>a\<close> and \<open>b\<close> differ as raw strings.
\<close>

theorem C10_trim_equal_inputs_one_entry:
  assumes "trim (address a) = trim (address b)" and "trim (address a) \<noteq> []"
  shows "history (add b (add a st)) = history (add a st)
       \<and> (history st = [] \<or> QRHistoryItem.url (hd (history st)) \<noteq> trim (address a)
            \<longrightarrow> history (add b (add a st)) = take 10 (entry_of a # history st))
       \<and> (history st = [] \<longrightarrow> history (add b (add a st)) = [entry_of a])"
proof -
  have nonempty: "history (add a st) \<noteq> []"
    and head: "QRHistoryItem.url (hd (history (add a st))) = trim (address a)"
  proof -
    show "history (add a st) \<noteq> []"
    proof (cases "history st = [] \<or> QRHistoryItem.url (hd (history st)) \<noteq> trim (address a)")
      case True
      then show ?thesis using assms(2) by (simp add: add_new)
    next
      case False
      then obtain x xs where "history st = x # xs" "QRHistoryItem.url x = trim (address a)"
        by (cases "history st") auto
      then show ?thesis by (simp add: add_head_same)
    qed
    show "QRHistoryItem.url (hd (history (add a st))) = trim (address a)"
    proof (cases "history st = [] \<or> QRHistoryItem.url (hd (history st)) \<noteq> trim (address a)")
      case True
      then show ?thesis using assms(2) by (simp add: add_new entry_of_def)
    next
      case False
      then obtain x xs where "history st = x # xs" "QRHistoryItem.url x = trim (address a)"
        by (cases "history st") auto
      then show ?thesis by (simp add: add_head_same)
    qed
  qed
  from nonempty obtain y ys where y: "history (add a st) = y # ys"
    by (cases "history (add a st)") auto
  with head assms(1) have "QRHistoryItem.url y = trim (address b)" by simp
  with y have same: "history (add b (add a st)) = history (add a st)"
    by (rule add_head_same)
  have new: "history st = [] \<or> QRHistoryItem.url (hd (history st)) \<noteq> trim (address a)
      \<longrightarrow> history (add b (add a st)) = take 10 (entry_of a # history st)"
    using same assms(2) by (simp add: add_new)
  have "history st = [] \<longrightarrow> history (add b (add a st)) = [entry_of a]"
    using new by simp
  with same new show ?thesis by blast
qed

theorem C10_trim_equal_inputs_one_entry_witness:
  "trim (address (call ''x'' ''k3x9q0zr1'' 1)) = trim (address (call ''  x  '' ''p07ab1cd2'' 2))
   \<and> trim (address (call ''x'' ''k3x9q0zr1'' 1)) \<noteq> []
   \<and> address (call ''x'' ''k3x9q0zr1'' 1) \<noteq> address (call ''  x  '' ''p07ab1cd2'' 2)
   \<and> history initial = []
   \<and> history (add (call ''  x  '' ''p07ab1cd2'' 2) (add (call ''x'' ''k3x9q0zr1'' 1) initial))
       = [entry_of (call ''x'' ''k3x9q0zr1'' 1)]"
proof -
  have h1: "trim (address (call ''x'' ''k3x9q0zr1'' 1))
      = trim (address (call ''  x  '' ''p07ab1cd2'' 2))"
    by (simp add: call_def js_def trim_def isWhiteSpace_def)
  have h2: "trim (address (call ''x'' ''k3x9q0zr1'' 1)) \<noteq> []"
    by (simp add: call_def js_def trim_def isWhiteSpace_def)
  have d: "address (call ''x'' ''k3x9q0zr1'' 1) \<noteq> address (call ''  x  '' ''p07ab1cd2'' 2)"
    by (simp add: call_def js_def)
  have h0: "history initial = []" by (simp add: initial_def)
  from C10_trim_equal_inputs_one_entry [OF h1 h2, of initial] h0
  have "history (add (call ''  x  '' ''p07ab1cd2'' 2) (add (call ''x'' ''k3x9q0zr1'' 1) initial))
       = [entry_of (call ''x'' ''k3x9q0zr1'' 1)]"
    by blast
  with h1 h2 d h0 show ?thesis by blast
qed

section \<open>The claims about export and persistence\<close>

text \<open>
  Claim C4, as the code has it.  The download button is disabled when the address is the
  empty string, and then a click changes nothing: no canvas is composed, no download is
  triggered, no entry is added, nothing is stored.  For an address that is not empty but
  consists of white space only the button is enabled: the click composes the canvas and
  triggers the download, and only the entry is not added.
\<close>

theorem C4_export_is_disabled_for_the_empty_address:
  "(App.url (app w) = [] \<longrightarrow> click_download e w = w)
   \<and> (App.url (app w) \<noteq> [] \<and> trim (App.url (app w)) = [] \<and> qrCanvas e \<and> ctx e \<longrightarrow>
        click_download e w =
          w\<lparr> downloads := downloads w @
                [\<lparr> download_name = js ''qr-code-'' @ Number_toString (Date_now_name e) @ js ''.png'',
                   href = mainCanvas (size' (app w)) (App.bgColor (app w)) \<rparr>] \<rparr>)"
  by (simp add: click_download_def disabled_def downloadQR_def Let_def addToHistory_def)

theorem C4_export_is_disabled_for_the_empty_address_witness:
  "App.url (app empty_page) = []
   \<and> click_download export_env0 empty_page = empty_page
   \<and> App.url (app blank_page) \<noteq> [] \<and> trim (App.url (app blank_page)) = []
   \<and> length (downloads (click_download export_env0 blank_page)) = 1
   \<and> history (app (click_download export_env0 blank_page)) = []"
proof -
  have e: "App.url (app empty_page) = []"
    by (simp add: empty_page_def page0_def)
  have b: "App.url (app blank_page) \<noteq> [] \<and> trim (App.url (app blank_page)) = []
      \<and> qrCanvas export_env0 \<and> ctx export_env0"
    by (simp add: blank_page_def page0_def export_env0_def js_def trim_def isWhiteSpace_def)
  have d: "downloads blank_page = []" "history (app blank_page) = []"
    by (simp_all add: blank_page_def page0_def initial_def)
  from C4_export_is_disabled_for_the_empty_address [of empty_page export_env0] e
  have 1: "click_download export_env0 empty_page = empty_page" by blast
  from C4_export_is_disabled_for_the_empty_address [of blank_page export_env0] b
  have "click_download export_env0 blank_page =
          blank_page\<lparr> downloads := downloads blank_page @
                [\<lparr> download_name = js ''qr-code-'' @ Number_toString (Date_now_name export_env0) @ js ''.png'',
                   href = mainCanvas (size' (app blank_page)) (App.bgColor (app blank_page)) \<rparr>] \<rparr>"
    by blast
  then have 2: "length (downloads (click_download export_env0 blank_page)) = 1"
    "history (app (click_download export_env0 blank_page)) = []"
    using d by simp_all
  from e 1 b 2 show ?thesis by blast
qed

text \<open>
  With the address of three spaces, a symbol canvas in the document and a 2D context, the
  click triggers a download.
\<close>

theorem C4_counterexample:
  "trim (App.url (app blank_page)) = []
   \<and> downloads (click_download export_env0 blank_page) \<noteq> downloads blank_page"
  by (simp add: click_download_def disabled_def downloadQR_def Let_def addToHistory_def
      blank_page_def page0_def export_env0_def js_def trim_def isWhiteSpace_def)

text \<open>
  Claim C5.  For a valid history \<open>S\<close> of at most ten entries, \<open>JSON.parse\<close> of
  \<open>JSON.stringify S\<close> is the array of the entries of \<open>S\<close>, which read as a history is
  \<open>S\<close>; the load effect run on the store that the save effect wrote installs \<open>S\<close>;
  and so does mounting the component on that store.
\<close>

theorem C5_persist_then_load_is_identity:
  assumes "valid_history S"
  shows "JSON_parse (JSON_stringify S) = Inr (JArray (map json_of_item S))
       \<and> as_history (JArray (map json_of_item S)) = Some S
       \<and> useEffect_load ((useEffect_save (w\<lparr> app := (app w)\<lparr> history := S \<rparr> \<rparr>))\<lparr> app := initial \<rparr>)
           = Entries ((useEffect_save (w\<lparr> app := (app w)\<lparr> history := S \<rparr> \<rparr>))
                     \<lparr> app := initial\<lparr> history := S \<rparr> \<rparr>)
       \<and> map_option (\<lambda>w. history (app w))
             (mount (useEffect_save (w\<lparr> app := (app w)\<lparr> history := S \<rparr> \<rparr>))) = Some S"
proof -
  from assms have safe: "list_all (\<lambda>it. safe_integer (timestamp it)) S"
    by (rule valid_history_safe)
  define w' where "w' = (useEffect_save (w\<lparr> app := (app w)\<lparr> history := S \<rparr> \<rparr>))\<lparr> app := initial \<rparr>"
  have "localStorage w' (js ''qr_history'') = Some (JSON_stringify S)"
    by (simp add: w'_def useEffect_save_def)
  then have "useEffect_load w' = Entries (w'\<lparr> app := (app w')\<lparr> history := S \<rparr> \<rparr>)"
    using JSON_stringify_nonempty JSON_roundtrip [OF safe] by (rule load_parsed)
  then have "useEffect_load ((useEffect_save (w\<lparr> app := (app w)\<lparr> history := S \<rparr> \<rparr>))\<lparr> app := initial \<rparr>)
      = Entries ((useEffect_save (w\<lparr> app := (app w)\<lparr> history := S \<rparr> \<rparr>))
                \<lparr> app := initial\<lparr> history := S \<rparr> \<rparr>)"
    by (simp add: w'_def)
  with JSON_roundtrip [OF safe] mount_saved [OF safe, where w = w] show ?thesis by simp
qed

theorem C5_persist_then_load_is_identity_witness:
  "valid_history [entry2, entry1]
   \<and> map_option (\<lambda>w. history (app w))
        (entries_world (useEffect_load
           ((useEffect_save (page0\<lparr> app := (app page0)\<lparr> history := [entry2, entry1] \<rparr> \<rparr>))
              \<lparr> app := initial \<rparr>)))
       = Some [entry2, entry1]
   \<and> history_cell (useEffect_load
           ((useEffect_save (page0\<lparr> app := (app page0)\<lparr> history := [entry2, entry1] \<rparr> \<rparr>))
              \<lparr> app := initial \<rparr>))
       = JArray [json_of_item entry2, json_of_item entry1]
   \<and> map_option (\<lambda>w. history (app w))
        (mount (useEffect_save (page0\<lparr> app := (app page0)\<lparr> history := [entry2, entry1] \<rparr> \<rparr>)))
       = Some [entry2, entry1]"
proof -
  have v: "valid_history [entry2, entry1]"
    by (simp add: valid_history_def valid_entry_def entry1_def entry2_def js_def trim_def
        isWhiteSpace_def)
  from C5_persist_then_load_is_identity [OF v, of page0] v show ?thesis
    by (simp add: entries_world_def history_cell_def)
qed

text \<open>
  Claim C6.  When the stored text does not parse, the load effect ends normally: the
  state of the component is the one it had (the history stays empty), and the error is
  only logged.  After mounting, the component is in its initial state and the store holds
  the empty array, as if nothing had been stored.
\<close>

theorem C6_unparsable_blob_is_discarded:
  assumes "localStorage w (js ''qr_history'') = Some saved"
    and "JSON_parse saved = Inl err"
  shows "useEffect_load w =
           Entries (if saved = [] then w
                  else w\<lparr> console_error := console_error w @ [js ''Failed to parse history''] \<rparr>)
       \<and> map_option app (entries_world (useEffect_load w)) = Some (app w)
       \<and> map_option app (mount w) = Some initial
       \<and> map_option (\<lambda>w'. localStorage w' (js ''qr_history'')) (mount w)
            = Some (Some (JSON_stringify []))"
proof -
  have l: "\<And>w. localStorage w (js ''qr_history'') = Some saved \<Longrightarrow> useEffect_load w =
           Entries (if saved = [] then w
                  else w\<lparr> console_error := console_error w @ [js ''Failed to parse history''] \<rparr>)"
    using assms(2) by (simp add: useEffect_load_def)
  have "localStorage (w\<lparr> app := initial \<rparr>) (js ''qr_history'') = Some saved"
    using assms(1) by simp
  from l [OF this] have m: "map_option app (mount w) = Some initial"
    "map_option (\<lambda>w'. localStorage w' (js ''qr_history'')) (mount w) = Some (Some (JSON_stringify []))"
    by (simp_all add: mount_def Let_def useEffect_save_def initial_def)
  from l [OF assms(1)] m show ?thesis by (simp add: entries_world_def)
qed

theorem C6_unparsable_blob_is_discarded_witness:
  "localStorage corrupt_page (js ''qr_history'') = Some (js ''{broken'')
   \<and> JSON_parse (js ''{broken'') = Inl SyntaxError
   \<and> map_option (\<lambda>w. history (app w)) (entries_world (useEffect_load corrupt_page)) = Some []
   \<and> map_option (\<lambda>w. history (app w)) (mount corrupt_page) = Some []"
proof -
  have a: "localStorage corrupt_page (js ''qr_history'') = Some (js ''{broken'')"
    by (simp add: corrupt_page_def)
  have h: "history (app corrupt_page) = []" "history initial = []"
    by (simp_all add: corrupt_page_def page0_def initial_def)
  from C6_unparsable_blob_is_discarded [OF a JSON_parse_broken]
  have "map_option app (entries_world (useEffect_load corrupt_page)) = Some (app corrupt_page)"
    and "map_option app (mount corrupt_page) = Some initial"
    by blast+
  then have "map_option (\<lambda>w. history (app w)) (entries_world (useEffect_load corrupt_page)) = Some []"
    and "map_option (\<lambda>w. history (app w)) (mount corrupt_page) = Some []"
    using h by (auto simp: map_option_case split: option.splits)
  with a JSON_parse_broken show ?thesis by blast
qed

text \<open>
  Claim C9.  The load effect installs the parsed value as it is.  Whatever value the
  stored text parses to, that value is what the history cell holds afterwards: no shape
  is asked for, no length is checked, no address is looked at.  When the value is the
  array of the entries of a history \<open>h\<close>, the history is \<open>h\<close>, of whatever length and
  with whatever addresses; any other value is in the cell all the same.  So there is a
  stored text after which the history has more than ten entries and a blank address, one
  after which it has an address with white space around it, one after which the cell
  holds an array of an object whose properties come in another order than those of the
  entries that the component makes, and one after which it holds \<open>null\<close>, no array
  at all.
\<close>

theorem C9_load_installs_parsed_value_unchecked:
  "(localStorage w (js ''qr_history'') = Some saved \<and> saved \<noteq> [] \<and> JSON_parse saved = Inr v
      \<longrightarrow> history_cell (useEffect_load w) = v
        \<and> (useEffect_load w = Entries (w\<lparr> app := (app w)\<lparr> history := the (as_history v) \<rparr> \<rparr>)
           \<or> useEffect_load w = Other w v))
   \<and> (localStorage w (js ''qr_history'') = Some saved \<and> saved \<noteq> []
      \<and> JSON_parse saved = Inr v \<and> as_history v = Some h
      \<longrightarrow> useEffect_load w = Entries (w\<lparr> app := (app w)\<lparr> history := h \<rparr> \<rparr>))
   \<and> (\<exists>saved w'. useEffect_load (stored saved) = Entries w'
         \<and> 10 < length (history (app w'))
         \<and> list_ex (\<lambda>it. trim (QRHistoryItem.url it) = []) (history (app w')))
   \<and> (\<exists>saved w'. useEffect_load (stored saved) = Entries w'
         \<and> list_ex (\<lambda>it. trim (QRHistoryItem.url it) \<noteq> QRHistoryItem.url it) (history (app w')))
   \<and> history_cell (useEffect_load (stored reordered_blob))
        = JArray [JObject [(js ''url'', JString (js ''https://a.example'')),
            (js ''id'', JString (js ''a'')),
            (js ''fgColor'', JString (js ''#000000'')), (js ''bgColor'', JString (js ''#ffffff'')),
            (js ''timestamp'', JNumber 1)]]
   \<and> history_cell (useEffect_load (stored null_blob)) = JNull"
proof (intro conjI impI)
  assume a: "localStorage w (js ''qr_history'') = Some saved \<and> saved \<noteq> [] \<and> JSON_parse saved = Inr v"
  then show "history_cell (useEffect_load w) = v"
    by (blast intro: load_installs)
  from a show "useEffect_load w = Entries (w\<lparr> app := (app w)\<lparr> history := the (as_history v) \<rparr> \<rparr>)
           \<or> useEffect_load w = Other w v"
    by (cases "as_history v") (auto simp: load_other load_parsed)
next
  assume "localStorage w (js ''qr_history'') = Some saved \<and> saved \<noteq> []
      \<and> JSON_parse saved = Inr v \<and> as_history v = Some h"
  then show "useEffect_load w = Entries (w\<lparr> app := (app w)\<lparr> history := h \<rparr> \<rparr>)"
    by (blast intro: load_parsed)
next
  have "trim (QRHistoryItem.url blank_entry) = []"
    by (simp add: blank_entry_def js_def trim_def isWhiteSpace_def)
  then have "list_ex (\<lambda>it. trim (QRHistoryItem.url it) = []) (replicate 11 blank_entry)"
    by (simp add: list_ex_iff)
  with load_eleven
  show "\<exists>saved w'. useEffect_load (stored saved) = Entries w'
         \<and> 10 < length (history (app w'))
         \<and> list_ex (\<lambda>it. trim (QRHistoryItem.url it) = []) (history (app w'))"
    by (intro exI [of _ eleven_blob] exI [of _ "(stored eleven_blob)\<lparr> app := (app (stored eleven_blob))
               \<lparr> history := replicate 11 blank_entry \<rparr> \<rparr>"]) simp
next
  have "trim (js ''  x '') \<noteq> js ''  x ''"
    by (simp add: js_def trim_def isWhiteSpace_def)
  with load_blank_blob
  show "\<exists>saved w'. useEffect_load (stored saved) = Entries w'
         \<and> list_ex (\<lambda>it. trim (QRHistoryItem.url it) \<noteq> QRHistoryItem.url it) (history (app w'))"
    by (intro exI [of _ blank_blob] exI [of _ "(stored blank_blob)\<lparr> app := (app (stored blank_blob))
               \<lparr> history := [\<lparr> id' = js ''a'', url = js ''  x '', fgColor = js ''#000000'',
                   bgColor = js ''#ffffff'', timestamp = 1 \<rparr>] \<rparr> \<rparr>"]) simp
next
  show "history_cell (useEffect_load (stored reordered_blob))
        = JArray [JObject [(js ''url'', JString (js ''https://a.example'')),
            (js ''id'', JString (js ''a'')),
            (js ''fgColor'', JString (js ''#000000'')), (js ''bgColor'', JString (js ''#ffffff'')),
            (js ''timestamp'', JNumber 1)]]"
    by (simp add: load_reordered_blob history_cell_def)
next
  show "history_cell (useEffect_load (stored null_blob)) = JNull"
    by (simp add: load_null_blob history_cell_def)
qed

theorem C9_load_installs_parsed_value_unchecked_witness:
  "localStorage (stored eleven_blob) (js ''qr_history'') = Some eleven_blob
   \<and> eleven_blob \<noteq> []
   \<and> JSON_parse eleven_blob = Inr (JArray (map json_of_item (replicate 11 blank_entry)))
   \<and> as_history (JArray (map json_of_item (replicate 11 blank_entry)))
        = Some (replicate 11 blank_entry)
   \<and> history_cell (useEffect_load (stored eleven_blob))
        = JArray (map json_of_item (replicate 11 blank_entry))
   \<and> map_option (\<lambda>w. length (history (app w))) (entries_world (useEffect_load (stored eleven_blob)))
        = Some 11
   \<and> \<not> valid_history (replicate 11 blank_entry)"
proof -
  have s: "localStorage (stored eleven_blob) (js ''qr_history'') = Some eleven_blob"
    by (simp add: stored_def)
  have n: "eleven_blob \<noteq> []"
    by (simp add: eleven_blob_def JSON_stringify_nonempty)
  have p: "JSON_parse eleven_blob = Inr (JArray (map json_of_item (replicate 11 blank_entry)))"
    unfolding eleven_blob_def using eleven_safe by (rule JSON_roundtrip)
  note a = JSON_roundtrip(2) [OF eleven_safe]
  note C = C9_load_installs_parsed_value_unchecked
    [of "stored eleven_blob" eleven_blob "JArray (map json_of_item (replicate 11 blank_entry))"
        "replicate 11 blank_entry"]
  from C s n p have c: "history_cell (useEffect_load (stored eleven_blob))
      = JArray (map json_of_item (replicate 11 blank_entry))"
    by blast
  from C s n p a have "useEffect_load (stored eleven_blob)
      = Entries ((stored eleven_blob)\<lparr> app := (app (stored eleven_blob))
                \<lparr> history := replicate 11 blank_entry \<rparr> \<rparr>)"
    by blast
  then have l: "map_option (\<lambda>w. length (history (app w))) (entries_world (useEffect_load (stored eleven_blob)))
      = Some 11"
    by (simp add: entries_world_def)
  have v: "\<not> valid_history (replicate 11 blank_entry)"
    by (simp add: valid_history_def)
  from s n p a c l v show ?thesis by blast
qed

section \<open>The claim about the export composer\<close>

text \<open>
  Claim C7.  For every size from 128 to 512 the composer computes
  \<open>padding = Math.max(20, size * 0.1)\<close> and \<open>totalSize = size + padding * 2\<close> in
  the arithmetic of Numbers; these lie within \<open>2^(-47)\<close> and \<open>2^(-43)\<close> of the exact
  \<open>max(20, size/10)\<close> and \<open>size + 2 max(20, size/10)\<close>.  Width and height of the
  canvas are set to \<open>totalSize\<close>, and the last drawing call draws the symbol at
  \<open>(padding, padding)\<close> with width and height \<open>size\<close>.  For size 128 the values
  are exactly 20 and 168; for size 256 they are the Numbers written \<open>25.6\<close> and
  \<open>307.2\<close>, that is the doubles nearest to 128/5 and 1536/5.
\<close>

theorem C7_export_geometry:
  assumes "128 \<le> sz" and "sz \<le> 512"
  shows "padding sz = max 20 (Number_multiply (of_int sz) literal_0_1)
       \<and> totalSize sz = Number_add (of_int sz) (Number_multiply (padding sz) 2)
       \<and> \<bar>padding sz - max 20 (of_int sz / 10)\<bar> \<le> 1 / 2 ^ 47
       \<and> \<bar>totalSize sz - (of_int sz + 2 * max 20 (of_int sz / 10))\<bar> \<le> 1 / 2 ^ 43
       \<and> width (mainCanvas sz bg) = totalSize sz
       \<and> height (mainCanvas sz bg) = totalSize sz
       \<and> last (ops (mainCanvas sz bg)) = DrawImage (padding sz) (padding sz) (of_int sz) (of_int sz)
       \<and> padding 128 = 20 \<and> totalSize 128 = 168
       \<and> padding 256 = fl (128 / 5) \<and> totalSize 256 = fl (1536 / 5)"
proof -
  have "width (mainCanvas sz bg) = totalSize sz" "height (mainCanvas sz bg) = totalSize sz"
    "last (ops (mainCanvas sz bg)) = DrawImage (padding sz) (padding sz) (of_int sz) (of_int sz)"
    by (simp_all add: mainCanvas_def Let_def)
  moreover have "padding sz = max 20 (Number_multiply (of_int sz) literal_0_1)"
    by (simp add: padding_def)
  moreover have "totalSize sz = Number_add (of_int sz) (Number_multiply (padding sz) 2)"
    by (simp add: totalSize_def)
  ultimately show ?thesis
    using padding_accuracy(1) [OF assms] totalSize_accuracy [OF assms] composer_128 composer_256
    by simp
qed

theorem C7_export_geometry_witness:
  "(128::int) \<le> 384 \<and> (384::int) \<le> 512
   \<and> padding 384 = 192 / 5 + 1 / 175921860444160
   \<and> totalSize 384 = 2304 / 5 + 1 / 87960930222080
   \<and> \<bar>padding 384 - max 20 (of_int 384 / 10)\<bar> \<le> 1 / 2 ^ 47
   \<and> \<bar>totalSize 384 - (of_int 384 + 2 * max 20 (of_int 384 / 10))\<bar> \<le> 1 / 2 ^ 43
   \<and> last (ops (mainCanvas 384 (js ''#ffffff''))) = DrawImage (padding 384) (padding 384) 384 384"
proof -
  have v: "padding 384 = 192 / 5 + 1 / 175921860444160"
    "totalSize 384 = 2304 / 5 + 1 / 87960930222080"
    unfolding padding_def totalSize_def Number_multiply_def Number_add_def literal_0_1_def
    by code_simp+
  have h: "(128::int) \<le> 384" "(384::int) \<le> 512" by simp_all
  from C7_export_geometry [OF h, of "js ''#ffffff''"] v h show ?thesis
    by simp
qed

end
